theory Spec2Isabelle
  imports Main "HOL-Library.Multiset" "HOL-Library.Product_Lexorder"
    "HOL-Library.List_Lexorder" "HOL-Library.Char_ord" "HOL-Library.Option_ord"
begin

section \<open>Sentinel feature gathering: the two-level parallel aggregator\<close>

text \<open>
  The development embeds \<^verbatim>\<open>Notebooks/utils/sentinel_satellites.py\<close> and the interface of
  \<^verbatim>\<open>Notebooks/utils/radar_features.py\<close>. Python integers are \<open>int\<close>, an exception is a
  value \<open>Inl e\<close> of the result type \<open>error + 'a\<close>, a dictionary is an association list in
  insertion order, an acquisition date (a \<^verbatim>\<open>pd.Timestamp\<close> at day granularity) is a day
  number. Band means and indices are values of a linearly ordered type.
\<close>

subsection \<open>Exceptions\<close>

datatype error =
    ValueError | ZeroDivisionError | AttributeError | TypeError
  | UnboundLocalError | KeyError | IndexError | EEException

fun exc_name :: "error \<Rightarrow> string" where
  "exc_name ValueError = ''ValueError''"
| "exc_name ZeroDivisionError = ''ZeroDivisionError''"
| "exc_name AttributeError = ''AttributeError''"
| "exc_name TypeError = ''TypeError''"
| "exc_name UnboundLocalError = ''UnboundLocalError''"
| "exc_name KeyError = ''KeyError''"
| "exc_name IndexError = ''IndexError''"
| "exc_name EEException = ''EEException''"

definition bind_err :: "error + 'a \<Rightarrow> ('a \<Rightarrow> error + 'b) \<Rightarrow> error + 'b" where
  "bind_err r f = (case r of Inl e \<Rightarrow> Inl e | Inr v \<Rightarrow> f v)"

text \<open>A loop whose body may raise: the first exception leaves the loop.\<close>

fun traverse :: "('a \<Rightarrow> error + 'b) \<Rightarrow> 'a list \<Rightarrow> error + 'b list" where
  "traverse f [] = Inr []"
| "traverse f (x # xs) =
     (case f x of Inl e \<Rightarrow> Inl e
      | Inr y \<Rightarrow> (case traverse f xs of Inl e \<Rightarrow> Inl e | Inr ys \<Rightarrow> Inr (y # ys)))"

subsection \<open>Python built-ins used by the source\<close>

text \<open>
  \<^verbatim>\<open>range(start, stop, step)\<close>: a zero step raises \<^verbatim>\<open>ValueError\<close>, a negative step counts
  down.
\<close>

definition py_range :: "int \<Rightarrow> int \<Rightarrow> int \<Rightarrow> error + int list" where
  "py_range start stop step =
     (if step = 0 then Inl ValueError
      else if 0 < step then
        Inr (map (\<lambda>j. start + int j * step)
               [0 ..< (if start < stop then nat ((stop - start + step - 1) div step) else 0)])
      else
        Inr (map (\<lambda>j. start + int j * step)
               [0 ..< (if stop < start then nat ((start - stop - step - 1) div (- step)) else 0)]))"

text \<open>
  \<^verbatim>\<open>xs[i:j]\<close>: a negative bound counts from the end, both bounds are clipped to the
  sequence.
\<close>

definition slice_bound :: "nat \<Rightarrow> int \<Rightarrow> nat" where
  "slice_bound n k = (if k < 0 then nat (max 0 (int n + k)) else min (nat k) n)"

definition py_slice :: "'a list \<Rightarrow> int \<Rightarrow> int \<Rightarrow> 'a list" where
  "py_slice xs i j =
     take (slice_bound (length xs) j - slice_bound (length xs) i)
       (drop (slice_bound (length xs) i) xs)"

text \<open>\<^verbatim>\<open>d[k]\<close> on a dictionary raises \<^verbatim>\<open>KeyError\<close> for a missing key.\<close>

definition dict_get :: "(string \<times> 'v) list \<Rightarrow> string \<Rightarrow> error + 'v" where
  "dict_get d k = (case map_of d k of None \<Rightarrow> Inl KeyError | Some v \<Rightarrow> Inr v)"

text \<open>
  \<^verbatim>\<open>d[k] = v\<close>: a key the dictionary has keeps its place and takes the new value, a new
  key goes to the end.
\<close>

definition dict_set :: "(string \<times> 'c) list \<Rightarrow> string \<Rightarrow> 'c \<Rightarrow> (string \<times> 'c) list" where
  "dict_set d k v =
     (if k \<in> set (map fst d) then map (\<lambda>(k', v'). if k' = k then (k', v) else (k', v')) d
      else d @ [(k, v)])"

text \<open>
  A dictionary display \<^verbatim>\<open>{k1: v1, k2: v2, ...}\<close> stores its items from left to right, so
  of two items with the same key the first fixes the place and the last the value.
\<close>

fun dict_build :: "(string \<times> 'c) list \<Rightarrow> (string \<times> 'c) list \<Rightarrow> (string \<times> 'c) list" where
  "dict_build d [] = d"
| "dict_build d ((k, v) # items) = dict_build (dict_set d k v) items"

definition dict_of :: "(string \<times> 'c) list \<Rightarrow> (string \<times> 'c) list" where
  "dict_of items = dict_build [] items"

text \<open>Labels in the order in which they first appear.\<close>

fun ordered_union :: "string list \<Rightarrow> string list \<Rightarrow> string list" where
  "ordered_union seen [] = seen"
| "ordered_union seen (k # ks) = ordered_union (if k \<in> set seen then seen else seen @ [k]) ks"

subsection \<open>Thread pools\<close>

text \<open>
  \<^verbatim>\<open>ThreadPoolExecutor(n)\<close> raises \<^verbatim>\<open>ValueError\<close> unless \<open>n\<close> is positive.
\<close>

definition thread_pool_executor :: "int \<Rightarrow> error + unit" where
  "thread_pool_executor n = (if n \<le> 0 then Inl ValueError else Inr ())"

text \<open>
  \<^verbatim>\<open>as_completed(futures)\<close> yields the futures in the order in which they finish. That order
  is the thread scheduler's, not the program's, so it is a parameter: a list of choices,
  each picking which of the futures still pending finishes next (when the choices run out
  the rest finish in submission order). The tasks share no state, so a future's result does
  not depend on the order.
\<close>

fun as_completed :: "nat list \<Rightarrow> 'a list \<Rightarrow> 'a list" where
  "as_completed cs [] = []"
| "as_completed [] (x # xs) = x # xs"
| "as_completed (c # cs) (x # xs) =
     (let i = c mod length (x # xs)
      in (x # xs) ! i # as_completed cs (take i (x # xs) @ drop (Suc i) (x # xs)))"

text \<open>
  \<^verbatim>\<open>for future in as_completed(futures): acc.extend(future.result())\<close>: the first future
  whose task raised re-raises its exception from \<^verbatim>\<open>result()\<close>.
\<close>

fun gather :: "(error + 'a list) list \<Rightarrow> error + 'a list" where
  "gather [] = Inr []"
| "gather (Inl e # rs) = Inl e"
| "gather (Inr xs # rs) = (case gather rs of Inl e \<Rightarrow> Inl e | Inr ys \<Rightarrow> Inr (xs @ ys))"

subsection \<open>The module \<^verbatim>\<open>radar_features\<close>\<close>

text \<open>
  The functions the module defines, each with the least and the greatest number of
  positional arguments it accepts (\<^verbatim>\<open>type=''\<close> is optional in two of them).
\<close>

definition radar_features :: "(string \<times> nat \<times> nat) list" where
  "radar_features =
     [(''get_polarization'', 3, 4),
      (''calculate_radar_vegetation_index'', 3, 3),
      (''calculate_simple_index'', 3, 4),
      (''calculate_normalized_difference_index'', 3, 3)]"

text \<open>
  \<^verbatim>\<open>module.f(a1, ..., an)\<close>: a name the module does not define raises
  \<^verbatim>\<open>AttributeError\<close>, a number of arguments the function does not accept raises
  \<^verbatim>\<open>TypeError\<close>; otherwise the body runs.
\<close>

definition call_module ::
  "(string \<times> nat \<times> nat) list \<Rightarrow> string \<Rightarrow> nat \<Rightarrow> (error + 'a) \<Rightarrow> error + 'a" where
  "call_module m f nargs body =
     (case map_of m f of
        None \<Rightarrow> Inl AttributeError
      | Some (lo, hi) \<Rightarrow> if lo \<le> nargs \<and> nargs \<le> hi then body else Inl TypeError)"

subsection \<open>The environment: worker budget, imagery platform, schedulers\<close>

text \<open>
  What the program reads from outside itself. \<open>max_workers\<close> is
  \<^verbatim>\<open>ThreadPoolExecutor()._max_workers\<close>, the process-wide worker budget \<open>T\<close>.
  \<open>filter_collection\<close> and \<open>aggregate_dates\<close> are the Earth Engine collection filtered for a
  polygon and a date range and the acquisition days it reports (\<^verbatim>\<open>getInfo()\<close> may fail).
  \<open>get_all_bands\<close> and \<open>optical_index\<close> stand for the functions of the module
  \<^verbatim>\<open>optical_features\<close>, \<open>radar_means\<close> and \<open>radar_index\<close> for what the calls into
  \<^verbatim>\<open>radar_features\<close> would return. \<open>outer_order\<close> and \<open>inner_order\<close> are the completion
  orders of the pool over fields and of each field's pool over date chunks.
\<close>

record ('p, 's, 'v) env =
  max_workers :: int
  filter_collection :: "int \<Rightarrow> 'p \<Rightarrow> int \<Rightarrow> int \<Rightarrow> 's"
  aggregate_dates :: "'s \<Rightarrow> error + int list"
  get_all_bands :: "'s \<Rightarrow> int \<Rightarrow> 'p \<Rightarrow> error + (string \<times> 'v) list"
  optical_index :: "string \<Rightarrow> (string \<times> 'v) list \<Rightarrow> error + 'v"
  radar_means :: "'s \<Rightarrow> int \<Rightarrow> 'p \<Rightarrow> error + (string \<times> 'v) list"
  radar_index :: "string \<Rightarrow> (string \<times> 'v) list \<Rightarrow> error + 'v"
  outer_order :: "nat list"
  inner_order :: "'p \<Rightarrow> nat list"

subsection \<open>Rows and tables\<close>

text \<open>
  One acquisition is the dictionary \<^verbatim>\<open>df_acquisition\<close>: its items are a field name, an
  acquisition date, and band means and indices, each under its column label.
\<close>

datatype ('n, 'v) cell = Name 'n | Date int | Val 'v

type_synonym ('n, 'v) acquisition = "(string \<times> ('n, 'v) cell) list"

text \<open>
  \<^verbatim>\<open>pd.DataFrame(df_list).columns\<close>: the keys of the rows in the order in which they first
  appear, none for no rows. The cell of a row \<open>r\<close> in column \<open>c\<close> is \<open>map_of r c\<close>.
\<close>

definition table_columns :: "('n, 'v) acquisition list \<Rightarrow> string list" where
  "table_columns rows = ordered_union [] (concat (map (map fst) rows))"

text \<open>
  The order of the cells of a column: names by the order of names, dates by the calendar,
  values by their order; a missing cell comes last. Every row of one call has the same
  labels with cells of the same kind (\<open>chunk_step_shape\<close> below), so cells of different
  kinds are never compared and no cell is missing.
\<close>

fun cell_key :: "('n, 'v) cell option \<Rightarrow> nat \<times> 'n option \<times> int option \<times> 'v option" where
  "cell_key None = (1, None, None, None)"
| "cell_key (Some (Name n)) = (0, Some n, None, None)"
| "cell_key (Some (Date d)) = (0, None, Some d, None)"
| "cell_key (Some (Val v)) = (0, None, None, Some v)"

text \<open>The field name and the acquisition date a row shows under given labels, if any.\<close>

definition field_id :: "string \<Rightarrow> ('n, 'v) acquisition \<Rightarrow> 'n option" where
  "field_id c r = (case map_of r c of Some (Name n) \<Rightarrow> Some n | _ \<Rightarrow> None)"

definition acq_date :: "string \<Rightarrow> ('n, 'v) acquisition \<Rightarrow> int option" where
  "acq_date c r = (case map_of r c of Some (Date d) \<Rightarrow> Some d | _ \<Rightarrow> None)"

text \<open>
  The fields argument. The source takes a table of fields (\<open>DataFrame\<close>: the label of the
  identifier column and one (name, polygon) pair per row) and, for one field alone, a
  single row of such a table (\<open>Series\<close>, with its two entries).
\<close>

datatype ('n, 'p) fields_df =
    Series string 'n 'p
  | DataFrame string "('n \<times> 'p) list"

fun len_df :: "('n, 'p) fields_df \<Rightarrow> nat" where
  "len_df (Series c n p) = 2"
| "len_df (DataFrame c rows) = length rows"

fun iterrows :: "('n, 'p) fields_df \<Rightarrow> error + ('n, 'p) fields_df list" where
  "iterrows (Series c n p) = Inl AttributeError"
| "iterrows (DataFrame c rows) = Inr (map (\<lambda>(n, p). Series c n p) rows)"

subsection \<open>\<^verbatim>\<open>process_chunk\<close>\<close>

definition radar_index_calls :: "(string \<times> nat \<times> string) list" where
  "radar_index_calls =
     [(''calculate_simple_index'', 2, ''AVE''),
      (''calculate_simple_index'', 2, ''DIF''),
      (''calculate_simple_index'', 2, ''RAT1''),
      (''calculate_simple_index'', 2, ''RAT2''),
      (''calculate_normalized_difference_index'', 1, ''NDI''),
      (''calculate_radar_vegetation_index'', 1, ''RVI'')]"

definition radar_acquisition ::
  "('p, 's, 'v) env \<Rightarrow> 's \<Rightarrow> int \<Rightarrow> 'p \<Rightarrow> string \<Rightarrow> 'n \<Rightarrow> error + ('n, 'v) acquisition" where
  "radar_acquisition E s_filtered date polygon field_col_name field_name =
     bind_err (call_module radar_features ''get_all_polarizations'' 3
                 (radar_means E s_filtered date polygon))
       (\<lambda>polarizations_means.
     bind_err (traverse (\<lambda>(f, nargs, col).
                 call_module radar_features f nargs (radar_index E col polarizations_means))
                 radar_index_calls)
       (\<lambda>indices.
     bind_err (traverse (dict_get polarizations_means) [''VV'', ''VH''])
       (\<lambda>means.
     Inr (dict_of ((field_col_name, Name field_name) # (''s1_acquisition_date'', Date date) #
            zip [''VV'', ''VH''] (map Val means) @
            zip (map (\<lambda>(f, nargs, col). col) radar_index_calls) (map Val indices))))))"

definition optical_band_columns :: "string list" where
  "optical_band_columns =
     [''B1'', ''B2'', ''B3'', ''B4'', ''B5'', ''B6'', ''B7'', ''B8'', ''B8A'', ''B9'',
      ''B11'', ''B12'']"

text \<open>
  The derived optical columns, in the order the source computes them; each name stands for
  the call that fills it (\<open>RENDVI2\<close> for
  \<^verbatim>\<open>calculate_vegetation_index(bands_means, 'REND', 2)\<close>, and so on).
\<close>

definition optical_index_columns :: "string list" where
  "optical_index_columns =
     [''NDVI'', ''NSNDVI'', ''GNDVI'', ''RENDVI1'', ''RENDVI2'', ''RENDVI3'', ''GRNDVI'',
      ''GBNDVI'', ''SAVI'', ''OSAVI'', ''MSAVI'', ''TSAVI'', ''ATSAVI'', ''RVI'', ''DVI'',
      ''CVI'', ''CTVI'', ''AVI'', ''ARVI1'', ''ARVI2'', ''EVI1'', ''EVI2'', ''EVI3'',
      ''WDRVI'', ''MTVI1'', ''MTVI2'', ''EOMI1'', ''EOMI2'', ''EOMI3'', ''EOMI4'', ''NBR'',
      ''NBR2'', ''CI1'', ''CI2'', ''CI3'', ''GCI'', ''SCI'', ''NDRE1'', ''NDRE2'', ''NDRE3'',
      ''CARI1'', ''CARI2'', ''MCARI'', ''MCARI1'', ''MCARI2'', ''BSI'', ''GLI'',
      ''ALTERATION'', ''SDI'']"

definition optical_acquisition ::
  "('p, 's, 'v) env \<Rightarrow> 's \<Rightarrow> int \<Rightarrow> 'p \<Rightarrow> string \<Rightarrow> 'n \<Rightarrow> error + ('n, 'v) acquisition" where
  "optical_acquisition E s_filtered date polygon field_col_name field_name =
     bind_err (get_all_bands E s_filtered date polygon)
       (\<lambda>bands_means.
     bind_err (traverse (\<lambda>col. optical_index E col bands_means) optical_index_columns)
       (\<lambda>indices.
     bind_err (traverse (dict_get bands_means) optical_band_columns)
       (\<lambda>means.
     Inr (dict_of ((field_col_name, Name field_name) # (''s2_acquisition_date'', Date date) #
            zip optical_band_columns (map Val means) @
            zip optical_index_columns (map Val indices))))))"

text \<open>
  The body of the loop over the chunk. With a sentinel other than 1 and 2 neither branch
  assigns \<^verbatim>\<open>df_acquisition\<close>, and \<^verbatim>\<open>acquisitions.append(df_acquisition)\<close> reads an unbound
  local.
\<close>

definition chunk_step ::
  "('p, 's, 'v) env \<Rightarrow> 's \<Rightarrow> 'p \<Rightarrow> string \<Rightarrow> 'n \<Rightarrow> int \<Rightarrow> int \<Rightarrow> error + ('n, 'v) acquisition" where
  "chunk_step E s_filtered polygon field_col_name field_name sentinel date =
     (if sentinel = 1 then radar_acquisition E s_filtered date polygon field_col_name field_name
      else if sentinel = 2 then
        optical_acquisition E s_filtered date polygon field_col_name field_name
      else Inl UnboundLocalError)"

definition process_chunk ::
  "('p, 's, 'v) env \<Rightarrow> 's \<Rightarrow> int list \<Rightarrow> 'p \<Rightarrow> string \<Rightarrow> 'n \<Rightarrow> int
     \<Rightarrow> error + ('n, 'v) acquisition list" where
  "process_chunk E s_filtered chunk polygon field_col_name field_name sentinel =
     traverse (chunk_step E s_filtered polygon field_col_name field_name sentinel) chunk"

subsection \<open>\<^verbatim>\<open>parallelize_features_read\<close>\<close>

definition num_chunks :: "('p, 's, 'v) env \<Rightarrow> int \<Rightarrow> int" where
  "num_chunks E already_occupied_threads = max_workers E - already_occupied_threads"

text \<open>\<^verbatim>\<open>len(date_range) // num_chunks\<close>; Python's \<open>//\<close> rounds down, as \<open>div\<close> on \<open>int\<close>.\<close>

definition chunk_size :: "'a list \<Rightarrow> int \<Rightarrow> error + int" where
  "chunk_size date_range k =
     (if k = 0 then Inl ZeroDivisionError else Inr (int (length date_range) div k))"

definition date_chunks :: "'a list \<Rightarrow> int \<Rightarrow> error + 'a list list" where
  "date_chunks date_range k =
     bind_err (chunk_size date_range k)
       (\<lambda>c. bind_err (py_range 0 (int (length date_range)) c)
          (\<lambda>starts. Inr (map (\<lambda>i. py_slice date_range i (i + c)) starts)))"

definition parallelize_features_read ::
  "('p, 's, 'v) env \<Rightarrow> 's \<Rightarrow> int list \<Rightarrow> 'p \<Rightarrow> string \<Rightarrow> 'n \<Rightarrow> int \<Rightarrow> int
     \<Rightarrow> error + ('n, 'v) acquisition list" where
  "parallelize_features_read E s_filtered date_range polygon field_col_name field_name
       sentinel already_occupied_threads =
     bind_err (date_chunks date_range (num_chunks E already_occupied_threads))
       (\<lambda>chunks.
     bind_err (thread_pool_executor (num_chunks E already_occupied_threads))
       (\<lambda>_. gather (as_completed (inner_order E polygon)
               (map (\<lambda>chunk. process_chunk E s_filtered chunk polygon field_col_name
                        field_name sentinel) chunks))))"

subsection \<open>\<^verbatim>\<open>process_field\<close>\<close>

text \<open>
  \<^verbatim>\<open>field[0]\<close> is the name and \<^verbatim>\<open>field[1]\<close> the polygon of a row; on a table the same
  subscript looks for a column labelled \<open>0\<close>, which a table whose columns are labelled by
  strings does not have, and raises \<^verbatim>\<open>KeyError\<close>. The polygon of a field is taken as
  well formed, so \<^verbatim>\<open>ee.Geometry.Polygon\<close> returns. With a sentinel other than 1 and 2
  neither branch assigns \<^verbatim>\<open>s_filtered\<close>, and the next statement reads an unbound local.
  \<^verbatim>\<open>distinct().sort()\<close> is \<open>sort (remdups _)\<close>.
\<close>

fun process_field ::
  "('p, 's, 'v) env \<Rightarrow> ('n, 'p) fields_df \<Rightarrow> int \<Rightarrow> int \<Rightarrow> int \<Rightarrow> int
     \<Rightarrow> error + ('n, 'v) acquisition list" where
  "process_field E (DataFrame c rows) start_date end_date sentinel already_occupied_threads =
     Inl KeyError"
| "process_field E (Series c field_name polygon) start_date end_date sentinel
       already_occupied_threads =
     (if sentinel = 1 \<or> sentinel = 2 then
        bind_err (aggregate_dates E (filter_collection E sentinel polygon start_date end_date))
          (\<lambda>s_dates.
             parallelize_features_read E
               (filter_collection E sentinel polygon start_date end_date)
               (sort (remdups s_dates)) polygon c field_name sentinel
               already_occupied_threads)
      else Inl UnboundLocalError)"

subsection \<open>\<^verbatim>\<open>get_features\<close>\<close>

text \<open>
  The tasks submitted to the pool over fields, each with the \<^verbatim>\<open>already_occupied_threads\<close>
  it is given: the whole argument when its \<^verbatim>\<open>len\<close> is 2, one task per row otherwise.
\<close>

definition field_tasks ::
  "('n, 'p) fields_df \<Rightarrow> int \<Rightarrow> error + (('n, 'p) fields_df \<times> int) list" where
  "field_tasks fields_df fields_threads =
     (if len_df fields_df = 2 then Inr [(fields_df, fields_threads)]
      else bind_err (iterrows fields_df)
             (\<lambda>rows. Inr (map (\<lambda>field. (field, fields_threads)) rows)))"

text \<open>
  \<^verbatim>\<open>df.sort_values([df.columns[0], df.columns[1]])\<close>: \<^verbatim>\<open>df.columns[0]\<close> raises
  \<^verbatim>\<open>IndexError\<close> on a table without columns; otherwise the rows are sorted, stably, by
  their cells in the first column, then by their cells in the second column, whatever
  these two columns hold.
\<close>

definition sort_values ::
  "('n::linorder, 'v::linorder) acquisition list \<Rightarrow> error + ('n, 'v) acquisition list" where
  "sort_values df_list =
     (case table_columns df_list of
        c0 # c1 # _ \<Rightarrow>
          Inr (sort_key (\<lambda>r. (cell_key (map_of r c0), cell_key (map_of r c1))) df_list)
      | _ \<Rightarrow> Inl IndexError)"

definition get_features ::
  "('p, 's, 'v::linorder) env \<Rightarrow> ('n::linorder, 'p) fields_df \<Rightarrow> int \<Rightarrow> int \<Rightarrow> int \<Rightarrow> int
      \<Rightarrow> error + ('n, 'v) acquisition list" where
  "get_features E fields_df start_date end_date sentinel fields_threads =
     bind_err (thread_pool_executor fields_threads)
       (\<lambda>_.
     bind_err (field_tasks fields_df fields_threads)
       (\<lambda>tasks.
     bind_err (gather (as_completed (outer_order E)
                 (map (\<lambda>(field, occupied).
                    process_field E field start_date end_date sentinel occupied) tasks)))
       sort_values))"

subsection \<open>What the imagery platform reported\<close>

text \<open>
  The fields of the argument, and the (field, acquisition date) pairs the platform reports
  for them, each pair once. The pairs are the specification's reference for the rows of a
  table of features; the source does not compute them.
\<close>

fun fields_of :: "('n, 'p) fields_df \<Rightarrow> ('n \<times> 'p) list" where
  "fields_of (Series c n p) = [(n, p)]"
| "fields_of (DataFrame c rows) = rows"

definition reported_pairs ::
  "('p, 's, 'v) env \<Rightarrow> int \<Rightarrow> int \<Rightarrow> int \<Rightarrow> ('n \<times> 'p) list \<Rightarrow> ('n \<times> int) list" where
  "reported_pairs E sentinel start_date end_date rows =
     concat (map (\<lambda>(name, polygon).
       case aggregate_dates E (filter_collection E sentinel polygon start_date end_date) of
         Inl e \<Rightarrow> []
       | Inr s_dates \<Rightarrow> map (Pair name) (remdups s_dates)) rows)"

subsection \<open>Labels and shape of an optical row\<close>

text \<open>
  The labels the optical branch itself puts into a row, the label of the identifier
  column of the fields argument, and the labels of an optical row with the kind of cell
  under each (0 a name, 1 a date, 2 a value), which depend on the identifier label alone.
\<close>

definition optical_columns :: "string list" where
  "optical_columns = ''s2_acquisition_date'' # optical_band_columns @ optical_index_columns"

fun label_of :: "('n, 'p) fields_df \<Rightarrow> string" where
  "label_of (Series c n p) = c"
| "label_of (DataFrame c rows) = c"

fun cell_kind :: "('n, 'v) cell \<Rightarrow> nat" where
  "cell_kind (Name n) = 0"
| "cell_kind (Date d) = 1"
| "cell_kind (Val v) = 2"

definition row_shape :: "string \<Rightarrow> (string \<times> nat) list" where
  "row_shape c =
     dict_of ((c, 0) # (''s2_acquisition_date'', 1) #
       map (\<lambda>k. (k, 2)) (optical_band_columns @ optical_index_columns))"

subsection \<open>The inner level with an explicit worker count\<close>



subsection \<open>A sample environment\<close>

text \<open>
  An imagery platform that always answers: polygons are numbered, the collection filtered
  for a polygon is named by the polygon's number, every band mean is the day number and
  every index is 0. The worker budget, the reported days of each polygon and the
  completion order are left open.
\<close>

definition sample_env :: "int \<Rightarrow> (nat \<Rightarrow> int list) \<Rightarrow> nat list \<Rightarrow> (nat, nat, int) env" where
  "sample_env T dates order =
     \<lparr>max_workers = T,
      filter_collection = (\<lambda>sentinel polygon start_date end_date. polygon),
      aggregate_dates = (\<lambda>s. Inr (dates s)),
      get_all_bands = (\<lambda>s date polygon. Inr (map (\<lambda>b. (b, date)) optical_band_columns)),
      optical_index = (\<lambda>col bands. Inr 0),
      radar_means = (\<lambda>s date polygon. Inr [(''VV'', date), (''VH'', date)]),
      radar_index = (\<lambda>col means. Inr 0),
      outer_order = order,
      inner_order = (\<lambda>polygon. order)\<rparr>"


section \<open>Properties\<close>

subsection \<open>Exceptions, completion order, gathering\<close>

lemma bind_err_Inl [simp]: "bind_err (Inl e) f = Inl e"
  by (simp add: bind_err_def)

lemma bind_err_Inr [simp]: "bind_err (Inr v) f = f v"
  by (simp add: bind_err_def)

lemma bind_err_eq_Inr:
  "bind_err r f = Inr y \<longleftrightarrow> (\<exists>v. r = Inr v \<and> f v = Inr y)"
  by (cases r) simp_all

text \<open>Whatever the scheduler does, the futures that finish are the futures submitted.\<close>

lemma mset_as_completed: "mset (as_completed cs xs) = mset xs"
proof (induction cs xs rule: as_completed.induct)
  case (3 c cs x xs)
  define ys where "ys = x # xs"
  define i where "i = c mod length ys"
  have i: "i < length ys" by (simp add: i_def ys_def)
  have split: "ys = take i ys @ ys ! i # drop (Suc i) ys"
    using i by (rule id_take_nth_drop)
  have "mset (as_completed cs (take i ys @ drop (Suc i) ys)) = mset (take i ys @ drop (Suc i) ys)"
    using 3 by (simp add: ys_def i_def)
  then have "mset (as_completed (c # cs) ys) = add_mset (ys ! i) (mset (take i ys) + mset (drop (Suc i) ys))"
    by (simp add: ys_def i_def Let_def)
  also have "\<dots> = mset (take i ys @ ys ! i # drop (Suc i) ys)" by simp
  also have "\<dots> = mset ys" using split by simp
  finally show ?case by (simp add: ys_def)
qed simp_all

lemma set_as_completed: "set (as_completed cs xs) = set xs"
  using mset_as_completed [of cs xs] by (rule mset_eq_setD)

lemma as_completed_eq_Nil: "as_completed cs xs = [] \<longleftrightarrow> xs = []"
  using set_as_completed [of cs xs] by (metis set_empty)

lemma as_completed_single: "as_completed cs [x] = [x]"
  by (cases cs) simp_all

lemma gather_all_Inl: "rs \<noteq> [] \<Longrightarrow> \<forall>r \<in> set rs. r = Inl e \<Longrightarrow> gather rs = Inl e"
  by (cases rs) auto

lemma gather_isl: "rs \<noteq> [] \<Longrightarrow> \<forall>r \<in> set rs. isl r \<Longrightarrow> isl (gather rs)"
  by (cases rs) (auto simp: isl_def)

lemma gather_as_completed_all_Inl:
  assumes "rs \<noteq> []" and "\<forall>r \<in> set rs. r = Inl e"
  shows "gather (as_completed cs rs) = Inl e"
  using assms by (intro gather_all_Inl) (simp_all add: as_completed_eq_Nil set_as_completed)

lemma gather_as_completed_isl:
  assumes "rs \<noteq> []" and "\<forall>r \<in> set rs. isl r"
  shows "isl (gather (as_completed cs rs))"
  using assms by (intro gather_isl) (simp_all add: as_completed_eq_Nil set_as_completed)

subsection \<open>Dictionaries and columns\<close>

lemma keys_dict_set:
  "map fst (dict_set d k v) = (if k \<in> set (map fst d) then map fst d else map fst d @ [k])"
  by (induction d) (auto simp: dict_set_def)

lemma keys_dict_build: "map fst (dict_build d items) = ordered_union (map fst d) (map fst items)"
proof (induction d items rule: dict_build.induct)
  case (2 d k v items)
  then show ?case by (simp add: keys_dict_set)
qed simp

lemma map_of_overwrite:
  "map_of (map (\<lambda>(k', v'). if k' = k then (k', v) else (k', v')) d) x =
     (if x = k then (if k \<in> fst ` set d then Some v else None) else map_of d x)"
  by (induction d) force+

lemma map_of_dict_set: "map_of (dict_set d k v) = (map_of d)(k \<mapsto> v)"
proof (rule ext)
  fix x
  show "map_of (dict_set d k v) x = ((map_of d)(k \<mapsto> v)) x"
  proof (cases "k \<in> set (map fst d)")
    case True
    then show ?thesis by (simp add: dict_set_def map_of_overwrite)
  next
    case False
    then have "map_of d k = None" by (simp add: map_of_eq_None_iff)
    with False show ?thesis by (auto simp: dict_set_def map_add_def split: option.splits)
  qed
qed

lemma map_of_dict_build_other:
  assumes "x \<notin> set (map fst items)"
  shows "map_of (dict_build d items) x = map_of d x"
  using assms
proof (induction d items rule: dict_build.induct)
  case (2 d k v items)
  then show ?case by (simp add: map_of_dict_set)
qed simp

lemma dict_set_map_values:
  "map (\<lambda>(k, x). (k, g x)) (dict_set d k v) = dict_set (map (\<lambda>(k, x). (k, g x)) d) k (g v)"
proof -
  have "map fst (map (\<lambda>(k, x). (k, g x)) d) = map fst d" by (induction d) auto
  then show ?thesis by (auto simp: dict_set_def)
qed

lemma dict_build_map_values:
  "map (\<lambda>(k, x). (k, g x)) (dict_build d items) =
     dict_build (map (\<lambda>(k, x). (k, g x)) d) (map (\<lambda>(k, x). (k, g x)) items)"
proof (induction d items rule: dict_build.induct)
  case (2 d k v items)
  then show ?case by (simp add: dict_set_map_values)
qed simp

lemma ordered_union_prefix: "\<exists>zs. ordered_union seen ks = seen @ zs"
proof (induction seen ks rule: ordered_union.induct)
  case (2 seen k ks)
  then show ?case by (cases "k \<in> set seen") auto
qed simp

lemma distinct_ordered_union: "distinct seen \<Longrightarrow> distinct (ordered_union seen ks)"
  by (induction seen ks rule: ordered_union.induct) auto

lemma ordered_union_append:
  "ordered_union seen (ks @ ks') = ordered_union (ordered_union seen ks) ks'"
  by (induction seen ks rule: ordered_union.induct) auto

lemma ordered_union_known: "set ks \<subseteq> set seen \<Longrightarrow> ordered_union seen ks = seen"
  by (induction seen ks rule: ordered_union.induct) auto

lemma ordered_union_fresh: "distinct (seen @ ks) \<Longrightarrow> ordered_union seen ks = seen @ ks"
  by (induction seen ks rule: ordered_union.induct) auto

text \<open>Rows with the same, duplicate-free labels make a table with these labels as columns.\<close>

lemma table_columns_uniform:
  assumes "rows \<noteq> []" and "\<forall>r \<in> set rows. map fst r = ks" and "distinct ks"
  shows "table_columns rows = ks"
proof -
  have known: "ordered_union ks (concat (map (map fst) rs)) = ks"
    if "\<forall>r \<in> set rs. map fst r = ks" for rs :: "('a, 'b) acquisition list"
    using that by (intro ordered_union_known) auto
  from assms(1) obtain r rs where rows: "rows = r # rs" by (cases rows) auto
  with assms(2) have r: "map fst r = ks" and rs: "\<forall>r \<in> set rs. map fst r = ks" by simp_all
  have "table_columns rows = ordered_union (ordered_union [] ks) (concat (map (map fst) rs))"
    by (simp add: table_columns_def rows r ordered_union_append)
  also have "ordered_union [] ks = ks" using assms(3) ordered_union_fresh [of "[]" ks] by simp
  finally show ?thesis using known [OF rs] by simp
qed

subsection \<open>Where the rows of a table come from\<close>

lemma gather_Inr:
  "gather rs = Inr ys \<Longrightarrow> rs = map Inr (map projr rs) \<and> ys = concat (map projr rs)"
proof (induction rs arbitrary: ys rule: gather.induct)
  case (3 xs rs)
  then show ?case by (auto split: sum.splits)
qed simp_all

lemma mset_concat_perm:
  assumes "mset xss = mset yss"
  shows "mset (concat (map f xss)) = mset (concat (map f yss))"
proof -
  have "mset (concat (map f zss)) = sum_mset (image_mset (\<lambda>zs. mset (f zs)) (mset zss))" for zss
    by (induction zss) simp_all
  with assms show ?thesis by simp
qed

lemma gather_as_completed_Inr:
  assumes "gather (as_completed cs rs) = Inr ys"
  shows "(\<forall>r \<in> set rs. \<exists>xs. r = Inr xs) \<and> mset ys = mset (concat (map projr rs))"
proof -
  from gather_Inr [OF assms]
  have shape: "as_completed cs rs = map Inr (map projr (as_completed cs rs))"
    and ys: "ys = concat (map projr (as_completed cs rs))" by simp_all
  have "\<forall>r \<in> set (as_completed cs rs). \<exists>xs. r = Inr xs"
    using shape by (metis (no_types, lifting) imageE list.set_map)
  then have all: "\<forall>r \<in> set rs. \<exists>xs. r = Inr xs" by (simp add: set_as_completed)
  have "mset ys = mset (concat (map projr rs))"
    unfolding ys by (rule mset_concat_perm) (rule mset_as_completed)
  with all show ?thesis by simp
qed

lemma traverse_Inr:
  "traverse f xs = Inr ys \<Longrightarrow> length ys = length xs \<and> (\<forall>i < length xs. f (xs ! i) = Inr (ys ! i))"
proof (induction xs arbitrary: ys)
  case (Cons x xs)
  then show ?case by (auto split: sum.splits simp: nth_Cons split: nat.splits)
qed simp

lemma traverse_Inr_elem:
  assumes "traverse f xs = Inr ys" and "y \<in> set ys"
  shows "\<exists>x \<in> set xs. f x = Inr y"
proof -
  from assms(2) obtain i where i: "i < length ys" and y: "ys ! i = y"
    by (auto simp: in_set_conv_nth)
  from traverse_Inr [OF assms(1)] i have "i < length xs" "f (xs ! i) = Inr (ys ! i)" by simp_all
  with y show ?thesis by (metis nth_mem)
qed

lemma parallelize_features_read_rows:
  assumes "parallelize_features_read E s_filtered dates polygon c name sentinel occupied = Inr rows"
    and "r \<in> set rows"
  shows "\<exists>date. chunk_step E s_filtered polygon c name sentinel date = Inr r"
proof -
  let ?pc = "\<lambda>chunk. process_chunk E s_filtered chunk polygon c name sentinel"
  from assms(1) obtain chunks where
    rows: "gather (as_completed (inner_order E polygon) (map ?pc chunks)) = Inr rows"
    unfolding parallelize_features_read_def bind_err_eq_Inr by auto
  from gather_as_completed_Inr [OF rows]
  have ok: "\<forall>x \<in> set (map ?pc chunks). \<exists>xs. x = Inr xs"
    and ms: "mset rows = mset (concat (map projr (map ?pc chunks)))" by simp_all
  from ms assms(2) have "r \<in> set (concat (map projr (map ?pc chunks)))"
    by (metis set_mset_mset)
  then obtain chunk where chunk: "chunk \<in> set chunks" and r: "r \<in> set (projr (?pc chunk))"
    by auto
  from ok chunk obtain rs where rs: "?pc chunk = Inr rs" by auto
  with r have "r \<in> set rs" by simp
  from traverse_Inr_elem [OF rs [unfolded process_chunk_def] this] show ?thesis by blast
qed

lemma process_field_rows:
  assumes "process_field E field start_date end_date sentinel occupied = Inr rows"
    and "r \<in> set rows"
  shows "\<exists>c name polygon s_filtered date.
           field = Series c name polygon
         \<and> chunk_step E s_filtered polygon c name sentinel date = Inr r"
proof (cases field)
  case (Series c name polygon)
  with assms(1) obtain s_dates where
    "parallelize_features_read E (filter_collection E sentinel polygon start_date end_date)
       (sort (remdups s_dates)) polygon c name sentinel occupied = Inr rows"
    by (auto simp: bind_err_eq_Inr split: if_splits)
  from parallelize_features_read_rows [OF this assms(2)] Series show ?thesis by blast
next
  case (DataFrame c rows')
  with assms(1) show ?thesis by simp
qed

lemma field_tasks_label:
  assumes "field_tasks fields_df fields_threads = Inr tasks"
    and "(Series c name polygon, occupied) \<in> set tasks"
  shows "c = label_of fields_df"
  using assms by (cases fields_df) (auto simp: field_tasks_def split: if_splits)

lemma gathered_rows:
  assumes "field_tasks fields_df fields_threads = Inr tasks"
    and "gather (as_completed (outer_order E)
           (map (\<lambda>(field, occupied).
              process_field E field start_date end_date sentinel occupied) tasks)) = Inr df_list"
    and "r \<in> set df_list"
  shows "\<exists>name polygon s_filtered date.
           chunk_step E s_filtered polygon (label_of fields_df) name sentinel date = Inr r"
proof -
  let ?run = "\<lambda>(field, occupied). process_field E field start_date end_date sentinel occupied"
  from gather_as_completed_Inr [OF assms(2)]
  have ok: "\<forall>x \<in> set (map ?run tasks). \<exists>xs. x = Inr xs"
    and ms: "mset df_list = mset (concat (map projr (map ?run tasks)))" by simp_all
  from ms assms(3) have "r \<in> set (concat (map projr (map ?run tasks)))"
    by (metis set_mset_mset)
  then obtain task where task: "task \<in> set tasks" and r: "r \<in> set (projr (?run task))"
    by auto
  obtain field occupied where fo: "task = (field, occupied)" by (cases task)
  from ok task fo obtain rows where
    rows: "process_field E field start_date end_date sentinel occupied = Inr rows" by force
  with r fo have "r \<in> set rows" by simp
  from process_field_rows [OF rows this] obtain c name polygon s_filtered date where
    field: "field = Series c name polygon"
    and step: "chunk_step E s_filtered polygon c name sentinel date = Inr r" by blast
  from field_tasks_label [OF assms(1)] task fo field have "c = label_of fields_df" by blast
  with step show ?thesis by blast
qed

subsection \<open>The labels and cells of a row\<close>

lemma shape_zip_Val:
  assumes "length ys = length xs"
  shows "map (\<lambda>(k, x). (k, cell_kind x)) (zip xs (map Val ys)) = map (\<lambda>k. (k, 2)) xs"
  using assms by (induction ys xs rule: list_induct2) simp_all

lemma chunk_step_row:
  assumes "chunk_step E s_filtered polygon c name sentinel date = Inr r"
  shows "\<exists>means indices.
           length means = length optical_band_columns
         \<and> length indices = length optical_index_columns
         \<and> r = dict_of ((c, Name name) # (''s2_acquisition_date'', Date date) #
                  zip optical_band_columns (map Val means) @
                  zip optical_index_columns (map Val indices))"
proof -
  from assms have "optical_acquisition E s_filtered date polygon c name = Inr r"
    by (auto simp: chunk_step_def radar_acquisition_def call_module_def radar_features_def
        split: if_splits)
  then obtain bands indices means where
    i: "traverse (\<lambda>col. optical_index E col bands) optical_index_columns = Inr indices"
    and m: "traverse (dict_get bands) optical_band_columns = Inr means"
    and r: "r = dict_of ((c, Name name) # (''s2_acquisition_date'', Date date) #
                  zip optical_band_columns (map Val means) @
                  zip optical_index_columns (map Val indices))"
    unfolding optical_acquisition_def bind_err_eq_Inr by auto
  from traverse_Inr [OF i] traverse_Inr [OF m] r show ?thesis by blast
qed

text \<open>Every row has the labels, and under each label the kind of cell, of \<open>row_shape\<close>.\<close>

lemma chunk_step_shape:
  assumes "chunk_step E s_filtered polygon c name sentinel date = Inr r"
  shows "map (\<lambda>(k, x). (k, cell_kind x)) r = row_shape c"
proof -
  from chunk_step_row [OF assms] obtain means indices where
    lm: "length means = length optical_band_columns"
    and li: "length indices = length optical_index_columns"
    and r: "r = dict_of ((c, Name name) # (''s2_acquisition_date'', Date date) #
                  zip optical_band_columns (map Val means) @
                  zip optical_index_columns (map Val indices))" by blast
  show ?thesis
    unfolding r dict_of_def dict_build_map_values row_shape_def
    by (simp add: shape_zip_Val [OF lm] shape_zip_Val [OF li])
qed

lemma chunk_step_columns:
  assumes "chunk_step E s_filtered polygon c name sentinel date = Inr r"
  shows "map fst r = map fst (row_shape c)"
proof -
  have "map fst r = map fst (map (\<lambda>(k, x). (k, cell_kind x)) r)" by (induction r) auto
  then show ?thesis by (simp only: chunk_step_shape [OF assms])
qed

lemma keys_row_shape:
  "map fst (row_shape c) =
     ordered_union [] (c # ''s2_acquisition_date'' # optical_band_columns @ optical_index_columns)"
proof -
  have "map fst (map (\<lambda>k. (k, 2::nat)) ks) = ks" for ks :: "string list"
    by (induction ks) simp_all
  then show ?thesis
    unfolding row_shape_def dict_of_def keys_dict_build by simp
qed

lemma distinct_row_shape: "distinct (map fst (row_shape c))"
  unfolding keys_row_shape by (rule distinct_ordered_union) simp

lemma first_two_of_ordered_union:
  assumes "xs = ordered_union [a, b] ks"
  shows "\<exists>cols. xs = a # b # cols"
proof -
  from ordered_union_prefix [of "[a, b]" ks] obtain zs where
    "ordered_union [a, b] ks = [a, b] @ zs" ..
  with assms show ?thesis by simp
qed

lemma row_shape_first_two_date:
  "\<exists>cols. map fst (row_shape ''s2_acquisition_date'') = ''s2_acquisition_date'' # ''B1'' # cols"
proof (rule first_two_of_ordered_union)
  have b: "optical_band_columns = ''B1'' # tl optical_band_columns"
    by (simp add: optical_band_columns_def)
  have "map fst (row_shape ''s2_acquisition_date'') =
          ordered_union [] (''s2_acquisition_date'' # ''s2_acquisition_date'' #
            (''B1'' # tl optical_band_columns) @ optical_index_columns)"
    unfolding keys_row_shape by (subst b) (rule refl)
  also have "\<dots> = ordered_union [''s2_acquisition_date'', ''B1'']
                    (tl optical_band_columns @ optical_index_columns)"
    by simp
  finally show "map fst (row_shape ''s2_acquisition_date'') =
      ordered_union [''s2_acquisition_date'', ''B1'']
        (tl optical_band_columns @ optical_index_columns)" .
qed

lemma row_shape_first_two_other:
  assumes "c \<noteq> ''s2_acquisition_date''"
  shows "\<exists>cols. map fst (row_shape c) = c # ''s2_acquisition_date'' # cols"
proof (rule first_two_of_ordered_union)
  show "map fst (row_shape c) =
          ordered_union [c, ''s2_acquisition_date'']
            (optical_band_columns @ optical_index_columns)"
    unfolding keys_row_shape using assms by simp
qed

lemma row_shape_two_columns: "\<exists>c0 c1 cols. map fst (row_shape c) = c0 # c1 # cols"
proof (cases "c = ''s2_acquisition_date''")
  case True
  from row_shape_first_two_date obtain cols where
    e: "map fst (row_shape ''s2_acquisition_date'') = ''s2_acquisition_date'' # ''B1'' # cols" ..
  show ?thesis unfolding True by (intro exI) (rule e)
next
  case False
  from row_shape_first_two_other [OF False] obtain cols where
    e: "map fst (row_shape c) = c # ''s2_acquisition_date'' # cols" ..
  show ?thesis by (intro exI) (rule e)
qed

lemma date_label_not_a_feature:
  "''s2_acquisition_date'' \<notin> set (optical_band_columns @ optical_index_columns)"
  by (simp add: optical_band_columns_def optical_index_columns_def)

text \<open>
  When the identifier label is none of the labels of the optical branch, a row shows its
  field name under the identifier label and its date under the date label.
\<close>

lemma chunk_step_key:
  assumes "chunk_step E s_filtered polygon c name sentinel date = Inr r"
    and "c \<notin> set optical_columns"
  shows "map_of r c = Some (Name name)" and "map_of r ''s2_acquisition_date'' = Some (Date date)"
proof -
  from chunk_step_row [OF assms(1)] obtain means indices where
    lm: "length means = length optical_band_columns"
    and li: "length indices = length optical_index_columns"
    and r: "r = dict_of ((c, Name name) # (''s2_acquisition_date'', Date date) #
                  zip optical_band_columns (map Val means) @
                  zip optical_index_columns (map Val indices))" by blast
  let ?feats = "zip optical_band_columns (map Val means) @
                zip optical_index_columns (map Val indices)"
  have keys: "map fst ?feats = optical_band_columns @ optical_index_columns"
    using lm li by simp
  from assms(2) have c: "c \<noteq> ''s2_acquisition_date''"
    "c \<notin> set (map fst ?feats)" unfolding keys by (simp_all add: optical_columns_def)
  have d: "''s2_acquisition_date'' \<notin> set (map fst ?feats)"
    unfolding keys by (rule date_label_not_a_feature)
  have r': "r = dict_build (dict_set (dict_set [] c (Name name)) ''s2_acquisition_date''
                  (Date date)) ?feats"
    by (simp add: r dict_of_def)
  show "map_of r c = Some (Name name)"
    unfolding r' map_of_dict_build_other [OF c(2)] using c(1) by (simp add: map_of_dict_set)
  show "map_of r ''s2_acquisition_date'' = Some (Date date)"
    unfolding r' map_of_dict_build_other [OF d] by (simp add: map_of_dict_set)
qed

subsection \<open>The returned table is sorted\<close>

lemma sorted_map_embedding:
  assumes "\<And>a b. f a \<le> f b \<longleftrightarrow> a \<le> b"
  shows "sorted (map f xs) = sorted xs"
  by (induction xs) (auto simp: assms)

lemma name_date_embedding:
  "(cell_key (Some (Name a)), cell_key (Some (Date d)))
     \<le> (cell_key (Some (Name b)), cell_key (Some (Date e :: ('n::linorder, 'v::linorder) cell)))
   \<longleftrightarrow> (a, d) \<le> (b, e)"
  by (auto simp: less_eq_prod_def less_prod_def)

lemma sort_values_uniform:
  assumes "df_list \<noteq> []"
    and "\<forall>r \<in> set df_list. map fst r = c0 # c1 # cols"
    and "distinct (c0 # c1 # cols)"
  shows "sort_values df_list =
           Inr (sort_key (\<lambda>r. (cell_key (map_of r c0), cell_key (map_of r c1))) df_list)"
    and "table_columns (sort_key (\<lambda>r. (cell_key (map_of r c0), cell_key (map_of r c1))) df_list)
           = c0 # c1 # cols"
proof -
  from table_columns_uniform [OF assms] show "sort_values df_list =
      Inr (sort_key (\<lambda>r. (cell_key (map_of r c0), cell_key (map_of r c1))) df_list)"
    by (simp add: sort_values_def)
  have "length (sort_key (\<lambda>r. (cell_key (map_of r c0), cell_key (map_of r c1))) df_list)
          = length df_list" by simp
  with assms(1) have "sort_key (\<lambda>r. (cell_key (map_of r c0), cell_key (map_of r c1))) df_list
          \<noteq> []" by (metis length_0_conv)
  then show "table_columns
      (sort_key (\<lambda>r. (cell_key (map_of r c0), cell_key (map_of r c1))) df_list) = c0 # c1 # cols"
    using assms(2,3) by (intro table_columns_uniform) simp_all
qed

text \<open>Every table that \<open>get_features\<close> returns is the sorted form of gathered rows.\<close>

lemma get_features_gathered:
  assumes "get_features E fields_df start_date end_date sentinel fields_threads = Inr tbl"
  shows "\<exists>tasks df_list. 0 < fields_threads
       \<and> field_tasks fields_df fields_threads = Inr tasks
       \<and> gather (as_completed (outer_order E)
            (map (\<lambda>(field, occupied).
               process_field E field start_date end_date sentinel occupied) tasks)) = Inr df_list
       \<and> df_list \<noteq> [] \<and> sort_values df_list = Inr tbl"
proof -
  from assms obtain tasks df_list where
    pool: "thread_pool_executor fields_threads = Inr ()"
    and tasks: "field_tasks fields_df fields_threads = Inr tasks"
    and g: "gather (as_completed (outer_order E)
            (map (\<lambda>(field, occupied).
               process_field E field start_date end_date sentinel occupied) tasks)) = Inr df_list"
    and s: "sort_values df_list = Inr tbl"
    unfolding get_features_def bind_err_eq_Inr by auto
  from pool have "0 < fields_threads" by (simp add: thread_pool_executor_def split: if_splits)
  moreover from s have "df_list \<noteq> []" by (auto simp: sort_values_def table_columns_def)
  ultimately show ?thesis using tasks g s by blast
qed

lemma gathered_rows_sorted:
  fixes E :: "('p, 's, 'v::linorder) env" and fields_df :: "('n::linorder, 'p) fields_df"
  assumes "0 < fields_threads"
    and "field_tasks fields_df fields_threads = Inr tasks"
    and "gather (as_completed (outer_order E)
           (map (\<lambda>(field, occupied).
              process_field E field start_date end_date sentinel occupied) tasks)) = Inr df_list"
    and "df_list \<noteq> []"
  shows "\<exists>tbl c0 c1 cols.
           get_features E fields_df start_date end_date sentinel fields_threads = Inr tbl
         \<and> mset tbl = mset df_list
         \<and> table_columns tbl = c0 # c1 # cols
         \<and> sorted (map (\<lambda>r. (cell_key (map_of r c0), cell_key (map_of r c1))) tbl)
         \<and> (label_of fields_df \<notin> set optical_columns \<longrightarrow>
              c0 = label_of fields_df \<and> c1 = ''s2_acquisition_date''
              \<and> (\<exists>keys.
                    map (\<lambda>r. (field_id c0 r, acq_date c1 r)) tbl =
                      map (\<lambda>(name, date). (Some name, Some date)) keys
                  \<and> sorted keys
                  \<and> (\<forall>i. Suc i < length keys \<longrightarrow> keys ! i \<le> keys ! Suc i)))"
proof -
  define c where "c = label_of fields_df"
  have origin: "\<exists>name polygon s_filtered date.
      chunk_step E s_filtered polygon c name sentinel date = Inr r" if "r \<in> set df_list" for r
    unfolding c_def using gathered_rows [OF assms(2,3) that] .
  from row_shape_two_columns [of c] obtain c0 c1 cols where
    cols: "map fst (row_shape c) = c0 # c1 # cols" by (elim exE)
  have uniform: "\<forall>r \<in> set df_list. map fst r = c0 # c1 # cols"
    using origin chunk_step_columns cols by metis
  have dist: "distinct (c0 # c1 # cols)"
    using distinct_row_shape [of c] cols by simp
  define tbl where
    "tbl = sort_key (\<lambda>r. (cell_key (map_of r c0), cell_key (map_of r c1))) df_list"
  from sort_values_uniform [OF assms(4) uniform dist]
  have sv: "sort_values df_list = Inr tbl" and tc: "table_columns tbl = c0 # c1 # cols"
    by (simp_all add: tbl_def)
  have run: "get_features E fields_df start_date end_date sentinel fields_threads = Inr tbl"
    using assms(1,2,3) sv by (simp add: get_features_def thread_pool_executor_def)
  have perm: "mset tbl = mset df_list" by (simp add: tbl_def)
  have srt: "sorted (map (\<lambda>r. (cell_key (map_of r c0), cell_key (map_of r c1))) tbl)"
    unfolding tbl_def by (rule sorted_sort_key)
  have by_name: "c0 = c \<and> c1 = ''s2_acquisition_date''
      \<and> (\<exists>keys. map (\<lambda>r. (field_id c0 r, acq_date c1 r)) tbl =
                   map (\<lambda>(name, date). (Some name, Some date)) keys
               \<and> sorted keys
               \<and> (\<forall>i. Suc i < length keys \<longrightarrow> keys ! i \<le> keys ! Suc i))"
    if free: "c \<notin> set optical_columns"
  proof -
    from free have "c \<noteq> ''s2_acquisition_date''" by (auto simp: optical_columns_def)
    from row_shape_first_two_other [OF this] cols
    have c0: "c0 = c" and c1: "c1 = ''s2_acquisition_date''" by auto
    have cells: "\<exists>name date. map_of r c0 = Some (Name name) \<and> map_of r c1 = Some (Date date)"
      if "r \<in> set tbl" for r
    proof -
      from that perm have "r \<in> set df_list" by (metis set_mset_mset)
      from origin [OF this] obtain name polygon s_filtered date where
        "chunk_step E s_filtered polygon c name sentinel date = Inr r" by blast
      from chunk_step_key [OF this free] show ?thesis unfolding c0 c1 by blast
    qed
    define key where
      "key = (\<lambda>r :: ('n, 'v) acquisition. (the (field_id c0 r), the (acq_date c1 r)))"
    define keys where "keys = map key tbl"
    define emb where
      "emb = (\<lambda>(name, date). (cell_key (Some (Name name :: ('n, 'v) cell)),
                               cell_key (Some (Date date :: ('n, 'v) cell))))"
    have row: "(field_id c0 r, acq_date c1 r) = (Some (fst (key r)), Some (snd (key r)))
        \<and> (cell_key (map_of r c0), cell_key (map_of r c1)) = emb (key r)"
      if "r \<in> set tbl" for r
    proof -
      from cells [OF that] obtain name date where
        "map_of r c0 = Some (Name name)" "map_of r c1 = Some (Date date)" by blast
      then show ?thesis by (simp add: key_def emb_def field_id_def acq_date_def)
    qed
    have shown: "map (\<lambda>r. (field_id c0 r, acq_date c1 r)) tbl =
        map (\<lambda>(name, date). (Some name, Some date)) keys"
      unfolding keys_def map_map by (rule map_cong) (simp_all add: row split_beta)
    have "map (\<lambda>r. (cell_key (map_of r c0), cell_key (map_of r c1))) tbl = map emb keys"
      unfolding keys_def map_map by (rule map_cong) (simp_all add: row)
    with srt have "sorted (map emb keys)" by simp
    moreover have "emb a \<le> emb b \<longleftrightarrow> a \<le> b" for a b
      unfolding emb_def by (cases a, cases b) (simp only: name_date_embedding prod.case)
    ultimately have sk: "sorted keys" by (simp only: sorted_map_embedding)
    have "keys ! i \<le> keys ! Suc i" if "Suc i < length keys" for i
      using sorted_nth_mono [OF sk, of i "Suc i"] that by simp
    with c0 c1 shown sk show ?thesis by blast
  qed
  from run perm tc srt by_name show ?thesis unfolding c_def by blast
qed

lemma get_features_returned_sorted:
  fixes E :: "('p, 's, 'v::linorder) env" and fields_df :: "('n::linorder, 'p) fields_df"
  assumes "get_features E fields_df start_date end_date sentinel fields_threads = Inr tbl"
  shows "\<exists>c0 c1 cols.
           table_columns tbl = c0 # c1 # cols
         \<and> sorted (map (\<lambda>r. (cell_key (map_of r c0), cell_key (map_of r c1))) tbl)
         \<and> (label_of fields_df \<notin> set optical_columns \<longrightarrow>
              c0 = label_of fields_df \<and> c1 = ''s2_acquisition_date''
              \<and> (\<exists>keys.
                    map (\<lambda>r. (field_id c0 r, acq_date c1 r)) tbl =
                      map (\<lambda>(name, date). (Some name, Some date)) keys
                  \<and> sorted keys
                  \<and> (\<forall>i. Suc i < length keys \<longrightarrow> keys ! i \<le> keys ! Suc i)))"
proof -
  from get_features_gathered [OF assms] obtain tasks df_list where
    "0 < fields_threads" "field_tasks fields_df fields_threads = Inr tasks"
    "gather (as_completed (outer_order E)
       (map (\<lambda>(field, occupied).
          process_field E field start_date end_date sentinel occupied) tasks)) = Inr df_list"
    "df_list \<noteq> []" by (elim exE conjE)
  from gathered_rows_sorted [OF this] obtain tbl' c0 c1 cols where
    run: "get_features E fields_df start_date end_date sentinel fields_threads = Inr tbl'"
    and rest: "table_columns tbl' = c0 # c1 # cols"
      "sorted (map (\<lambda>r. (cell_key (map_of r c0), cell_key (map_of r c1))) tbl')"
      "label_of fields_df \<notin> set optical_columns \<longrightarrow>
              c0 = label_of fields_df \<and> c1 = ''s2_acquisition_date''
              \<and> (\<exists>keys.
                    map (\<lambda>r. (field_id c0 r, acq_date c1 r)) tbl' =
                      map (\<lambda>(name, date). (Some name, Some date)) keys
                  \<and> sorted keys
                  \<and> (\<forall>i. Suc i < length keys \<longrightarrow> keys ! i \<le> keys ! Suc i))"
    by (elim exE conjE)
  from run assms have "tbl' = tbl" by simp
  with rest show ?thesis by (intro exI conjI) simp_all
qed




subsection \<open>The inner worker budget\<close>






subsection \<open>No budget left for the inner level\<close>

lemma partition_fails_without_budget:
  assumes "max_workers E \<le> occupied"
  shows "parallelize_features_read E s_filtered date_range polygon c name sentinel occupied =
           Inl (if occupied = max_workers E then ZeroDivisionError else ValueError)"
proof (cases "occupied = max_workers E")
  case True
  then show ?thesis
    by (simp add: parallelize_features_read_def date_chunks_def chunk_size_def num_chunks_def)
next
  case False
  with assms have neg: "max_workers E - occupied < 0" by simp
  show ?thesis
  proof (cases "date_range = []")
    case True
    with neg False show ?thesis
      by (simp add: parallelize_features_read_def date_chunks_def chunk_size_def num_chunks_def
          py_range_def)
  next
    case nonempty: False
    then have "0 < int (length date_range)" by simp
    with neg have "int (length date_range) div (max_workers E - occupied) < 0"
      by (simp add: neg_imp_zdiv_neg_iff)
    with neg False show ?thesis
      by (simp add: parallelize_features_read_def date_chunks_def chunk_size_def num_chunks_def
          py_range_def thread_pool_executor_def)
  qed
qed

lemma process_field_fails_without_budget:
  assumes "max_workers E \<le> occupied"
  shows "isl (process_field E field start_date end_date sentinel occupied)"
proof (cases field)
  case (Series c name polygon)
  show ?thesis
  proof (cases "aggregate_dates E (filter_collection E sentinel polygon start_date end_date)")
    case (Inl e)
    then show ?thesis using Series by simp
  next
    case (Inr ds)
    then show ?thesis using Series by (simp add: partition_fails_without_budget [OF assms])
  qed
qed simp

lemma get_features_fails_without_budget:
  assumes "max_workers E \<le> fields_threads"
  shows "isl (get_features E fields_df start_date end_date sentinel fields_threads)"
proof (cases "fields_threads \<le> 0")
  case True
  then show ?thesis by (simp add: get_features_def thread_pool_executor_def)
next
  case pos: False
  show ?thesis
  proof (cases "field_tasks fields_df fields_threads")
    case (Inl e)
    with pos show ?thesis by (simp add: get_features_def thread_pool_executor_def)
  next
    case (Inr tasks)
    define rs where "rs = map (\<lambda>(field, occupied).
        process_field E field start_date end_date sentinel occupied) tasks"
    have gf: "get_features E fields_df start_date end_date sentinel fields_threads =
                bind_err (gather (as_completed (outer_order E) rs)) sort_values"
      using pos Inr by (simp add: get_features_def thread_pool_executor_def rs_def)
    show ?thesis
    proof (cases "tasks = []")
      case True
      then show ?thesis
        unfolding gf by (simp add: rs_def sort_values_def table_columns_def)
    next
      case False
      have occ: "occupied = fields_threads" if "(field, occupied) \<in> set tasks" for field occupied
        using Inr that by (auto simp: field_tasks_def bind_err_eq_Inr split: if_splits)
      have "\<forall>r \<in> set rs. isl r"
        unfolding rs_def using occ process_field_fails_without_budget [OF assms] by auto
      moreover have "rs \<noteq> []" using False by (simp add: rs_def)
      ultimately have "isl (gather (as_completed (outer_order E) rs))"
        by (intro gather_as_completed_isl)
      then show ?thesis unfolding gf by (auto simp: isl_def)
    qed
  qed
qed

text \<open>
  Claim C5, as amended: when \<open>fields_threads \<ge> T\<close>, \<open>get_features\<close> returns no table but
  fails, whatever the fields, the satellite and the completion order; the date-partitioning
  step of a field-task fails with \<^verbatim>\<open>ZeroDivisionError\<close> when \<open>fields_threads = T\<close> and with
  \<^verbatim>\<open>ValueError\<close> when \<open>fields_threads > T\<close>. No budget check and no error kind of its own
  exist.
\<close>

theorem no_inner_budget_fails:
  assumes "max_workers E \<le> fields_threads"
  shows "(\<exists>e. get_features E fields_df start_date end_date sentinel fields_threads = Inl e)
       \<and> parallelize_features_read E s_filtered date_range polygon c name sentinel fields_threads =
           Inl (if fields_threads = max_workers E then ZeroDivisionError else ValueError)"
proof (intro conjI)
  show "\<exists>e. get_features E fields_df start_date end_date sentinel fields_threads = Inl e"
    using get_features_fails_without_budget [OF assms, of fields_df start_date end_date sentinel]
    by (simp add: isl_def)
  show "parallelize_features_read E s_filtered date_range polygon c name sentinel fields_threads =
           Inl (if fields_threads = max_workers E then ZeroDivisionError else ValueError)"
    by (rule partition_fails_without_budget [OF assms])
qed

theorem no_inner_budget_fails_witness:
  "max_workers (sample_env 4 (\<lambda>p. [1, 2, 3]) []) \<le> 6
   \<and> (\<exists>e. get_features (sample_env 4 (\<lambda>p. [1, 2, 3]) [])
             (DataFrame ''name'' [(''a'', 0), (''b'', 1), (''c'', 2)]) 0 10 2 6 = Inl e)
   \<and> parallelize_features_read (sample_env 4 (\<lambda>p. [1, 2, 3]) []) 0 [1, 2, 3] 0 ''name'' ''a'' 2 6
       = (Inl ValueError :: error + (string, int) acquisition list)"
proof -
  have h: "max_workers (sample_env 4 (\<lambda>p. [1, 2, 3]) []) \<le> 6"
    by (simp add: sample_env_def)
  from no_inner_budget_fails [OF h, of "DataFrame ''name'' [(''a'', 0), (''b'', 1), (''c'', 2)]"
      0 10 2 0 "[1, 2, 3]" 0 "''name''" "''a''"] h
  show ?thesis by (simp add: sample_env_def)
qed

text \<open>
  Claim C5 as stated fails: with a budget of 4, 4 workers over the fields and a single
  field with three days, optical satellite, the exception raised is
  \<^verbatim>\<open>ZeroDivisionError\<close>, not an error called \<open>InvalidBudget\<close>.
\<close>

theorem no_inner_budget_counterexample:
  "get_features (sample_env 4 (\<lambda>p. [1, 2, 3]) []) (Series ''name'' ''a'' 0) 0 10 2 4
     = Inl ZeroDivisionError
   \<and> exc_name ZeroDivisionError \<noteq> ''InvalidBudget''"
  by code_simp

subsection \<open>An empty table of fields\<close>

text \<open>
  Claim C8, as amended: on an empty table of fields \<open>get_features\<close> fails; no field-task
  runs, the table built from no rows has no columns, and reading its first column raises
  \<^verbatim>\<open>IndexError\<close> (\<^verbatim>\<open>ValueError\<close> from the pool when \<open>fields_threads\<close> is not positive).
\<close>

theorem empty_fields_fail:
  "get_features E (DataFrame c []) start_date end_date sentinel fields_threads =
     Inl (if fields_threads \<le> 0 then ValueError else IndexError)"
  by (simp add: get_features_def thread_pool_executor_def field_tasks_def sort_values_def
      table_columns_def)

text \<open>
  Claim C8 as stated fails: the exception raised on an empty table is \<^verbatim>\<open>IndexError\<close>, not
  an error called \<open>EmptyFieldSet\<close>.
\<close>

theorem empty_fields_counterexample:
  "get_features (sample_env 4 (\<lambda>p. [1, 2, 3]) []) (DataFrame ''name'' ([] :: (string \<times> nat) list))
      0 10 2 1 = Inl IndexError
   \<and> exc_name IndexError \<noteq> ''EmptyFieldSet''"
  by (simp add: get_features_def thread_pool_executor_def field_tasks_def sort_values_def
      table_columns_def)

subsection \<open>Partitioning the dates\<close>

lemma py_slice_forward:
  assumes "0 \<le> i" and "0 \<le> c"
  shows "py_slice xs i (i + c) = take (nat c) (drop (nat i) xs)"
proof (cases "nat i < length xs")
  case True
  then show ?thesis
    using assms by (auto simp: py_slice_def slice_bound_def min_def nat_add_distrib)
next
  case False
  then show ?thesis
    using assms by (simp add: py_slice_def slice_bound_def min_def)
qed

lemma concat_fixed_chunks:
  "concat (map (\<lambda>j. take c (drop (j * c) xs)) [0 ..< m]) = take (m * c) xs"
proof (induction m)
  case (Suc m)
  have "take (Suc m * c) xs = take (m * c) xs @ take c (drop (m * c) xs)"
    using take_add [of "m * c" c xs] by (simp add: add.commute)
  with Suc show ?case by simp
qed simp

lemma ceil_div_cover:
  fixes n c :: nat
  assumes "0 < c"
  shows "n \<le> (n + c - 1) div c * c"
proof -
  have "(n + c - 1) div c * c + (n + c - 1) mod c = n + c - 1" by simp
  moreover have "(n + c - 1) mod c < c" using assms by simp
  ultimately show ?thesis by linarith
qed

lemma ceil_div_last:
  fixes n c :: nat
  assumes "0 < c" and "0 < n"
  shows "((n + c - 1) div c - 1) * c < n"
proof -
  have "(n + c - 1) div c * c \<le> n + c - 1" by simp
  then have "(n + c - 1) div c * c - c \<le> n - 1" using assms by linarith
  then show ?thesis using assms by (simp add: diff_mult_distrib)
qed

lemma date_chunks_fixed:
  assumes "1 \<le> k" and "k \<le> int (length dates)"
  defines "c \<equiv> length dates div nat k"
  shows "date_chunks dates k =
           Inr (map (\<lambda>j. take c (drop (j * c) dates)) [0 ..< (length dates + c - 1) div c])"
    and "0 < c"
proof -
  let ?n = "length dates"
  have kn: "nat k \<le> ?n" "0 < nat k" using assms by linarith+
  then show cpos: "0 < c" unfolding c_def by (simp add: div_greater_zero_iff)
  have cint: "int ?n div k = int c"
    unfolding c_def using assms(1) by (simp add: zdiv_int)
  have npos: "0 < ?n" using kn by linarith
  have m: "nat ((int ?n + int c - 1) div int c) = (?n + c - 1) div c"
  proof -
    have "int ?n + int c - 1 = int (?n + c - 1)" using cpos by linarith
    then show ?thesis by (simp add: zdiv_int [symmetric] del: of_nat_add of_nat_diff)
  qed
  have "date_chunks dates k =
          Inr (map (\<lambda>i. py_slice dates i (i + int c))
                 (map (\<lambda>j. 0 + int j * int c) [0 ..< (?n + c - 1) div c]))"
    using assms(1) cpos npos
    by (simp add: date_chunks_def chunk_size_def cint py_range_def m del: of_nat_add)
  also have "map (\<lambda>i. py_slice dates i (i + int c))
                 (map (\<lambda>j. 0 + int j * int c) [0 ..< (?n + c - 1) div c]) =
             map (\<lambda>j. take c (drop (j * c) dates)) [0 ..< (?n + c - 1) div c]"
    by (simp add: py_slice_forward nat_mult_distrib)
  finally show "date_chunks dates k =
           Inr (map (\<lambda>j. take c (drop (j * c) dates)) [0 ..< (length dates + c - 1) div c])" .
qed

lemma butlast_upt_0: "butlast [0 ..< m] = [0 ..< m - 1]"
  by (cases m) simp_all

lemma disjoint_chunks_of_distinct_concat:
  assumes "distinct (concat xss)" and "[] \<notin> set xss" and "i < j" and "j < length xss"
  shows "set (xss ! i) \<inter> set (xss ! j) = {}"
proof -
  from assms(1) have d: "distinct (removeAll [] xss)"
    and disj: "\<And>ys zs. ys \<in> set xss \<Longrightarrow> zs \<in> set xss \<Longrightarrow> ys \<noteq> zs \<Longrightarrow> set ys \<inter> set zs = {}"
    by (auto simp: distinct_concat_iff)
  from d assms(2) have "distinct xss" by simp
  with assms(3,4) have "xss ! i \<noteq> xss ! j" by (simp add: nth_eq_iff_index_eq)
  with assms(3,4) show ?thesis by (intro disj) simp_all
qed

text \<open>
  Claim C4, as amended: for \<open>n\<close> dates and an inner worker count \<open>k\<close> with
  \<open>1 \<le> k \<le> n\<close>, the partitioning step cuts the dates into contiguous chunks of
  \<open>n div k\<close> dates each, the last one possibly shorter but not empty. The chunks
  concatenate to the dates, so their sizes sum to \<open>n\<close> and no date of a duplicate-free
  sequence is in two chunks; there are at least \<open>k\<close> chunks and at most \<open>n\<close>.
\<close>

theorem date_chunks_partition:
  assumes "1 \<le> k" and "k \<le> int (length dates)"
  shows "\<exists>chunks. date_chunks dates k = Inr chunks
      \<and> concat chunks = dates
      \<and> sum_list (map length chunks) = length dates
      \<and> (\<forall>ch \<in> set chunks. 1 \<le> length ch \<and> int (length ch) \<le> int (length dates) div k)
      \<and> (\<forall>ch \<in> set (butlast chunks). int (length ch) = int (length dates) div k)
      \<and> k \<le> int (length chunks) \<and> length chunks \<le> length dates
      \<and> (distinct dates \<longrightarrow>
           (\<forall>i j. i < j \<and> j < length chunks \<longrightarrow> set (chunks ! i) \<inter> set (chunks ! j) = {}))"
proof -
  define n where "n = length dates"
  define c where "c = n div nat k"
  define m where "m = (n + c - 1) div c"
  define chunks where "chunks = map (\<lambda>j. take c (drop (j * c) dates)) [0 ..< m]"
  have run: "date_chunks dates k = Inr chunks" and cpos: "0 < c"
    using date_chunks_fixed [OF assms] by (simp_all add: chunks_def m_def c_def n_def)
  have npos: "0 < n" using assms unfolding n_def by linarith
  have cint: "int n div k = int c"
    unfolding c_def using assms(1) by (simp add: zdiv_int)
  have cover: "n \<le> m * c" unfolding m_def by (rule ceil_div_cover [OF cpos])
  have last: "(m - 1) * c < n" unfolding m_def by (rule ceil_div_last [OF cpos npos])
  have cat: "concat chunks = dates"
    unfolding chunks_def concat_fixed_chunks using cover by (simp add: n_def)
  have total: "sum_list (map length chunks) = length dates"
    using cat by (metis length_concat)
  have start: "j * c < n" if "j < m" for j
  proof -
    from that have "j * c \<le> (m - 1) * c" by (intro mult_right_mono) simp_all
    with last show ?thesis by linarith
  qed
  have len: "length (take c (drop (j * c) dates)) = min c (n - j * c)" for j
    by (simp add: n_def)
  have sizes: "\<forall>ch \<in> set chunks. 1 \<le> length ch \<and> int (length ch) \<le> int (length dates) div k"
  proof
    fix ch assume "ch \<in> set chunks"
    then obtain j where j: "j < m" and ch: "ch = take c (drop (j * c) dates)"
      by (auto simp: chunks_def)
    from start [OF j] cpos have "1 \<le> min c (n - j * c)" "min c (n - j * c) \<le> c" by simp_all
    then show "1 \<le> length ch \<and> int (length ch) \<le> int (length dates) div k"
      unfolding ch len using cint by (simp add: n_def)
  qed
  have full: "\<forall>ch \<in> set (butlast chunks). int (length ch) = int (length dates) div k"
  proof
    fix ch assume "ch \<in> set (butlast chunks)"
    then obtain j where j: "j < m - 1" and ch: "ch = take c (drop (j * c) dates)"
      by (auto simp: chunks_def map_butlast [symmetric] butlast_upt_0)
    from j have "(j + 1) * c \<le> (m - 1) * c" by (intro mult_right_mono) simp_all
    with last have "j * c + c \<le> n" by simp
    then have "min c (n - j * c) = c" by simp
    then show "int (length ch) = int (length dates) div k"
      unfolding ch len using cint by (simp add: n_def)
  qed
  have "nat k * c \<le> n" unfolding c_def by (simp add: mult.commute)
  with cover have "nat k * c \<le> m * c" by linarith
  with cpos have "nat k \<le> m" by simp
  then have lower: "k \<le> int (length chunks)" by (simp add: chunks_def)
  have "m * c \<le> n + c - 1" unfolding m_def by simp
  moreover have "n + c - 1 \<le> n * c"
  proof (cases c)
    case (Suc c')
    have "c' \<le> n * c'" using npos by simp
    then show ?thesis using Suc by simp
  qed (use cpos in simp)
  ultimately have "m * c \<le> n * c" by linarith
  with cpos have "m \<le> n" by simp
  then have upper: "length chunks \<le> length dates" by (simp add: chunks_def n_def)
  have nonempty: "[] \<notin> set chunks" using sizes by fastforce
  have apart: "distinct dates \<longrightarrow>
      (\<forall>i j. i < j \<and> j < length chunks \<longrightarrow> set (chunks ! i) \<inter> set (chunks ! j) = {})"
    using disjoint_chunks_of_distinct_concat [OF _ nonempty] cat by auto
  from run cat total sizes full lower upper apart show ?thesis by blast
qed

theorem date_chunks_partition_witness:
  "(1::int) \<le> 2 \<and> (2::int) \<le> int (length [1, 2, 3, 4, 5, 6, 7 :: int])
   \<and> (\<exists>chunks. date_chunks [1, 2, 3, 4, 5, 6, 7 :: int] 2 = Inr chunks
      \<and> concat chunks = [1, 2, 3, 4, 5, 6, 7]
      \<and> sum_list (map length chunks) = length [1, 2, 3, 4, 5, 6, 7 :: int]
      \<and> (\<forall>ch \<in> set chunks.
            1 \<le> length ch \<and> int (length ch) \<le> int (length [1, 2, 3, 4, 5, 6, 7 :: int]) div 2)
      \<and> (\<forall>ch \<in> set (butlast chunks).
            int (length ch) = int (length [1, 2, 3, 4, 5, 6, 7 :: int]) div 2)
      \<and> 2 \<le> int (length chunks) \<and> length chunks \<le> length [1, 2, 3, 4, 5, 6, 7 :: int]
      \<and> (distinct [1, 2, 3, 4, 5, 6, 7 :: int] \<longrightarrow>
           (\<forall>i j. i < j \<and> j < length chunks \<longrightarrow> set (chunks ! i) \<inter> set (chunks ! j) = {})))"
proof -
  have h1: "(1::int) \<le> 2" by simp
  have h2: "(2::int) \<le> int (length [1, 2, 3, 4, 5, 6, 7 :: int])" by simp
  from date_chunks_partition [OF h1 h2] h1 h2 show ?thesis by (intro conjI)
qed

text \<open>
  Claim C4 as stated fails: 7 dates and 2 inner workers give 3 chunks, not 2, and their
  sizes 3, 3, 1 differ by 2.
\<close>

theorem date_chunks_counterexample:
  "date_chunks [1, 2, 3, 4, 5, 6, 7 :: int] 2 = Inr [[1, 2, 3], [4, 5, 6], [7]]
   \<and> length [[1, 2, 3], [4, 5, 6], [7 :: int]] \<noteq> 2
   \<and> length [1, 2, 3 :: int] - length [7 :: int] = 2"
  by code_simp

subsection \<open>Fewer dates than inner workers\<close>

lemma no_dates_raise:
  "parallelize_features_read E s_filtered [] polygon c name sentinel occupied =
     Inl (if num_chunks E occupied = 0 then ZeroDivisionError else ValueError)"
  by (simp add: parallelize_features_read_def date_chunks_def chunk_size_def py_range_def)

text \<open>
  Claim C6 (a field for which the platform reports no acquisition date contributes no row
  and raises no error) fails on the code: such a field makes the chunk size 0 and
  \<^verbatim>\<open>range\<close> raise \<^verbatim>\<open>ValueError\<close>, which \<open>get_features\<close> raises in turn. Three fields,
  the second without dates, the others with four; budget 8, 4 workers over the fields,
  optical satellite.
\<close>

theorem get_features_no_dates_raises:
  "aggregate_dates (sample_env 8 (\<lambda>p. if p = 1 then [] else [1, 2, 3, 4]) []) 1 = Inr []
   \<and> get_features (sample_env 8 (\<lambda>p. if p = 1 then [] else [1, 2, 3, 4]) [])
       (DataFrame ''name'' [(''a'', 0), (''b'', 1), (''c'', 2)]) 0 10 2 4 = Inl ValueError"
  by code_simp

text \<open>
  Claim C1 (the returned table has exactly one row per reported (field, date) pair) fails
  on the code for the same reason whenever a field has fewer dates than inner workers:
  no table is returned. One field with the two reported days 3 and 1, budget 8, 4 workers
  over the fields, optical satellite.
\<close>

theorem get_features_few_dates_raises:
  "reported_pairs (sample_env 8 (\<lambda>p. [3, 1]) []) 2 0 10 (fields_of (DataFrame ''name'' [(''a'', 0)]))
     = [(''a'', 3), (''a'', 1)]
   \<and> get_features (sample_env 8 (\<lambda>p. [3, 1]) []) (DataFrame ''name'' [(''a'', 0)]) 0 10 2 4
     = Inl ValueError"
  by code_simp

subsection \<open>The radar branch\<close>

lemma radar_acquisition_fails:
  "radar_acquisition E s_filtered date polygon c name = Inl AttributeError"
  by (simp add: radar_acquisition_def call_module_def radar_features_def)

text \<open>
  Claim C9 (the calls of \<open>process_chunk\<close> into \<^verbatim>\<open>radar_features\<close> match that module's
  interface) fails on the code. The first call of every iteration names
  \<^verbatim>\<open>get_all_polarizations\<close>, which the module does not define, so a non-empty chunk raises
  \<^verbatim>\<open>AttributeError\<close> on its first date; each of the six index calls after it passes fewer
  arguments than the function called requires.
\<close>

theorem radar_path_fails:
  "process_chunk E s_filtered (date # chunk) polygon c name 1 = Inl AttributeError
   \<and> map_of radar_features ''get_all_polarizations'' = None
   \<and> map (\<lambda>(f, nargs, col). call_module radar_features f nargs body) radar_index_calls =
       [Inl TypeError, Inl TypeError, Inl TypeError, Inl TypeError, Inl TypeError,
        Inl TypeError]"
  by (simp add: process_chunk_def chunk_step_def radar_acquisition_fails)
    (simp add: call_module_def radar_features_def radar_index_calls_def)

text \<open>
  Claim C7 (two fields with three dates each, radar satellite, 1 worker over the fields
  and a budget of 2 give a table of 6 rows) fails on the code: a table of exactly two
  fields has \<^verbatim>\<open>len\<close> 2 and is handed to \<open>process_field\<close> whole, as if it were one row,
  which raises \<^verbatim>\<open>KeyError\<close>; and each of the two fields, processed as a row with the radar
  satellite, raises \<^verbatim>\<open>AttributeError\<close>.
\<close>

theorem radar_scenario_fails:
  "get_features (sample_env 2 (\<lambda>p. [1, 2, 3]) []) (DataFrame ''name'' [(''a'', 0), (''b'', 1)])
      0 10 1 1 = Inl KeyError
   \<and> process_field (sample_env 2 (\<lambda>p. [1, 2, 3]) []) (Series ''name'' ''a'' 0) 0 10 1 1
      = (Inl AttributeError :: error + (string, int) acquisition list)
   \<and> process_field (sample_env 2 (\<lambda>p. [1, 2, 3]) []) (Series ''name'' ''b'' 1) 0 10 1 1
      = (Inl AttributeError :: error + (string, int) acquisition list)"
  by code_simp

subsection \<open>The rows of a returned table\<close>

text \<open>
  Whenever \<open>get_features\<close> returns a table whose identifier label is none of the labels of
  the optical branch, whatever the completion orders, its rows show the reported (field,
  date) pairs, each as often as the reported pairs list it; and it returns a table only
  with the optical satellite, a positive inner budget and, for every field, at least as
  many distinct dates as inner workers.
\<close>

lemma process_chunk_keys:
  assumes "process_chunk E s_filtered chunk polygon c name sentinel = Inr rs"
    and "c \<notin> set optical_columns"
  shows "map (\<lambda>r. (field_id c r, acq_date ''s2_acquisition_date'' r)) rs =
           map (\<lambda>date. (Some name, Some date)) chunk"
proof (rule nth_equalityI)
  from traverse_Inr [OF assms(1) [unfolded process_chunk_def]]
  have len: "length rs = length chunk"
    and each: "\<And>i. i < length chunk \<Longrightarrow>
      chunk_step E s_filtered polygon c name sentinel (chunk ! i) = Inr (rs ! i)" by simp_all
  show "length (map (\<lambda>r. (field_id c r, acq_date ''s2_acquisition_date'' r)) rs) =
      length (map (\<lambda>date. (Some name, Some date)) chunk)"
    using len by simp
  fix i assume "i < length (map (\<lambda>r. (field_id c r, acq_date ''s2_acquisition_date'' r)) rs)"
  then have i: "i < length chunk" using len by simp
  from chunk_step_key [OF each [OF i] assms(2)] i len
  show "map (\<lambda>r. (field_id c r, acq_date ''s2_acquisition_date'' r)) rs ! i =
      map (\<lambda>date. (Some name, Some date)) chunk ! i"
    by (simp add: field_id_def acq_date_def)
qed

lemma date_chunks_concat:
  assumes "date_chunks dates k = Inr chunks" and "0 < k"
  shows "concat chunks = dates \<and> k \<le> int (length dates)"
proof -
  from assms have nz: "int (length dates) div k \<noteq> 0"
    by (auto simp: date_chunks_def chunk_size_def py_range_def bind_err_eq_Inr split: if_splits)
  have le: "k \<le> int (length dates)"
  proof (rule ccontr)
    assume "\<not> k \<le> int (length dates)"
    then have "int (length dates) div k = 0" by (simp add: div_pos_pos_trivial)
    with nz show False by simp
  qed
  from assms(2) have k1: "1 \<le> k" by simp
  define c where "c = length dates div nat k"
  from date_chunks_fixed [OF k1 le] assms(1)
  have chunks: "chunks = map (\<lambda>j. take c (drop (j * c) dates)) [0 ..< (length dates + c - 1) div c]"
    and cpos: "0 < c" by (simp_all add: c_def)
  have "concat chunks = dates"
    unfolding chunks concat_fixed_chunks using ceil_div_cover [OF cpos, of "length dates"] by simp
  with le show ?thesis by simp
qed

lemma image_mset_concat_map:
  "image_mset k (mset (concat (map f xs))) = mset (concat (map (\<lambda>x. map k (f x)) xs))"
  by (induction xs) simp_all

lemma mset_concat_pointwise:
  assumes "\<And>x. x \<in> set xs \<Longrightarrow> mset (f x) = mset (g x)"
  shows "mset (concat (map f xs)) = mset (concat (map g xs))"
  using assms by (induction xs) simp_all

lemma length_concat_pointwise:
  assumes "\<And>x. x \<in> set xs \<Longrightarrow> length (f x) = length x"
  shows "length (concat (map f xs)) = length (concat xs)"
  using assms by (induction xs) simp_all

lemma parallelize_features_read_budget:
  assumes "parallelize_features_read E s_filtered dates polygon c name sentinel occupied = Inr rows"
  shows "0 < num_chunks E occupied" and "num_chunks E occupied \<le> int (length dates)"
    and "length rows = length dates"
proof -
  let ?pc = "\<lambda>chunk. process_chunk E s_filtered chunk polygon c name sentinel"
  from assms obtain chunks where
    chunks: "date_chunks dates (num_chunks E occupied) = Inr chunks"
    and pool: "thread_pool_executor (num_chunks E occupied) = Inr ()"
    and rows: "gather (as_completed (inner_order E polygon) (map ?pc chunks)) = Inr rows"
    unfolding parallelize_features_read_def bind_err_eq_Inr by auto
  from pool show pos: "0 < num_chunks E occupied"
    by (simp add: thread_pool_executor_def split: if_splits)
  from date_chunks_concat [OF chunks pos]
  have cat: "concat chunks = dates" and "num_chunks E occupied \<le> int (length dates)" by simp_all
  then show "num_chunks E occupied \<le> int (length dates)" by simp
  from gather_as_completed_Inr [OF rows]
  have ok: "\<forall>r \<in> set (map ?pc chunks). \<exists>xs. r = Inr xs"
    and ms: "mset rows = mset (concat (map projr (map ?pc chunks)))" by simp_all
  have each: "length (projr (?pc chunk)) = length chunk" if "chunk \<in> set chunks" for chunk
  proof -
    from ok that obtain rs where rs: "?pc chunk = Inr rs" by auto
    from traverse_Inr [OF rs [unfolded process_chunk_def]] rs show ?thesis by simp
  qed
  have "map projr (map ?pc chunks) = map (\<lambda>chunk. projr (?pc chunk)) chunks"
    by (simp only: map_map comp_def)
  with mset_eq_length [OF ms]
  have "length rows = length (concat (map (\<lambda>chunk. projr (?pc chunk)) chunks))"
    by (simp only:)
  also have "\<dots> = length (concat chunks)" by (rule length_concat_pointwise) (rule each)
  finally show "length rows = length dates" by (simp only: cat)
qed

lemma parallelize_features_read_keys:
  assumes "parallelize_features_read E s_filtered dates polygon c name sentinel occupied = Inr rows"
    and "c \<notin> set optical_columns"
  shows "mset (map (\<lambda>r. (field_id c r, acq_date ''s2_acquisition_date'' r)) rows) =
           mset (map (\<lambda>date. (Some name, Some date)) dates)"
proof -
  let ?pc = "\<lambda>chunk. process_chunk E s_filtered chunk polygon c name sentinel"
  let ?key = "\<lambda>r. (field_id c r, acq_date ''s2_acquisition_date'' r)"
  let ?pair = "\<lambda>date. (Some name, Some date)"
  from assms(1) obtain chunks where
    chunks: "date_chunks dates (num_chunks E occupied) = Inr chunks"
    and rows: "gather (as_completed (inner_order E polygon) (map ?pc chunks)) = Inr rows"
    unfolding parallelize_features_read_def bind_err_eq_Inr by auto
  from date_chunks_concat [OF chunks parallelize_features_read_budget(1) [OF assms(1)]]
  have cat: "concat chunks = dates" by simp
  from gather_as_completed_Inr [OF rows]
  have ok: "\<forall>r \<in> set (map ?pc chunks). \<exists>xs. r = Inr xs"
    and ms: "mset rows = mset (concat (map projr (map ?pc chunks)))" by simp_all
  have each: "map ?key (projr (?pc chunk)) = map ?pair chunk" if "chunk \<in> set chunks" for chunk
  proof -
    from ok that obtain rs where rs: "?pc chunk = Inr rs" by auto
    from process_chunk_keys [OF rs assms(2)] rs show ?thesis by simp
  qed
  have "mset (map ?key rows) = image_mset ?key (mset rows)" by simp
  also have "\<dots> = image_mset ?key (mset (concat (map (\<lambda>chunk. projr (?pc chunk)) chunks)))"
    by (simp only: ms map_map comp_def)
  also have "\<dots> = mset (concat (map (\<lambda>chunk. map ?key (projr (?pc chunk))) chunks))"
    by (rule image_mset_concat_map)
  also have "\<dots> = mset (concat (map (map ?pair) chunks))"
    by (rule mset_concat_pointwise) (rule arg_cong [OF each])
  also have "\<dots> = mset (map ?pair dates)"
    unfolding cat [symmetric] by (simp only: map_concat)
  finally show ?thesis .
qed

lemma process_field_keys:
  assumes "process_field E field start_date end_date sentinel occupied = Inr rows"
    and "label_of field \<notin> set optical_columns"
  shows "mset (map (\<lambda>r. (field_id (label_of field) r, acq_date ''s2_acquisition_date'' r)) rows) =
           mset (map (\<lambda>(name, date). (Some name, Some date))
                  (reported_pairs E sentinel start_date end_date (fields_of field)))"
proof (cases field)
  case (Series c name polygon)
  with assms(1) obtain s_dates where
    d: "aggregate_dates E (filter_collection E sentinel polygon start_date end_date) = Inr s_dates"
    and r: "parallelize_features_read E (filter_collection E sentinel polygon start_date end_date)
              (sort (remdups s_dates)) polygon c name sentinel occupied = Inr rows"
    by (auto simp: bind_err_eq_Inr split: if_splits)
  from assms(2) Series have "c \<notin> set optical_columns" by simp
  from parallelize_features_read_keys [OF r this] d Series show ?thesis
    by (simp add: reported_pairs_def comp_def)
next
  case (DataFrame c rows')
  with assms(1) show ?thesis by simp
qed

lemma sort_values_mset:
  assumes "sort_values df_list = Inr tbl"
  shows "mset tbl = mset df_list"
  using assms by (auto simp: sort_values_def split: list.splits)

lemma get_features_keys:
  assumes "get_features E fields_df start_date end_date sentinel fields_threads = Inr tbl"
    and "label_of fields_df \<notin> set optical_columns"
  shows "mset (map (\<lambda>r. (field_id (label_of fields_df) r,
                        acq_date ''s2_acquisition_date'' r)) tbl) =
           mset (map (\<lambda>(name, date). (Some name, Some date))
                  (reported_pairs E sentinel start_date end_date (fields_of fields_df)))"
proof -
  let ?c = "label_of fields_df"
  let ?key = "\<lambda>r. (field_id ?c r, acq_date ''s2_acquisition_date'' r)"
  let ?pair = "\<lambda>(name, date). (Some name, Some date)"
  let ?run = "\<lambda>(field, occupied). process_field E field start_date end_date sentinel occupied"
  from get_features_gathered [OF assms(1)] obtain tasks df_list where
    tasks: "field_tasks fields_df fields_threads = Inr tasks"
    and g: "gather (as_completed (outer_order E) (map ?run tasks)) = Inr df_list"
    and s: "sort_values df_list = Inr tbl"
    by blast
  from sort_values_mset [OF s] have tbl: "mset tbl = mset df_list" .
  from gather_as_completed_Inr [OF g]
  have ok: "\<forall>r \<in> set (map ?run tasks). \<exists>xs. r = Inr xs"
    and ms: "mset df_list = mset (concat (map projr (map ?run tasks)))" by simp_all
  have each: "mset (map ?key (projr (?run task))) =
      mset (map ?pair (reported_pairs E sentinel start_date end_date (fields_of (fst task))))"
    if "task \<in> set tasks" for task
  proof -
    obtain field occupied where task: "task = (field, occupied)" by (cases task)
    from ok that task obtain rows where
      rows: "process_field E field start_date end_date sentinel occupied = Inr rows" by force
    then obtain c name polygon where field: "field = Series c name polygon"
      by (cases field) auto
    from field_tasks_label [OF tasks] that task field have c: "label_of field = ?c" by simp
    from assms(2) c have "label_of field \<notin> set optical_columns" by simp
    from process_field_keys [OF rows this] rows task c show ?thesis by simp
  qed
  have split: "reported_pairs E sentinel start_date end_date (fields_of fields_df) =
      concat (map (\<lambda>task. reported_pairs E sentinel start_date end_date (fields_of (fst task))) tasks)"
  proof (cases fields_df)
    case (Series c name polygon)
    with tasks show ?thesis by (auto simp: field_tasks_def)
  next
    case (DataFrame c rows)
    show ?thesis
    proof (cases "length rows = 2")
      case True
      with tasks DataFrame ok show ?thesis by (auto simp: field_tasks_def)
    next
      case False
      with tasks DataFrame have "tasks = map (\<lambda>field. (field, fields_threads))
          (map (\<lambda>(n, p). Series c n p) rows)"
        by (auto simp: field_tasks_def)
      then show ?thesis
        using DataFrame by (simp add: reported_pairs_def comp_def case_prod_unfold)
    qed
  qed
  have "mset (map ?key tbl) = image_mset ?key (mset tbl)" by simp
  also have "\<dots> = image_mset ?key (mset (concat (map (\<lambda>task. projr (?run task)) tasks)))"
    by (simp only: tbl ms map_map comp_def)
  also have "\<dots> = mset (concat (map (\<lambda>task. map ?key (projr (?run task))) tasks))"
    by (rule image_mset_concat_map)
  also have "\<dots> = mset (concat (map (\<lambda>task. map ?pair
      (reported_pairs E sentinel start_date end_date (fields_of (fst task)))) tasks))"
    by (rule mset_concat_pointwise) (rule each)
  also have "\<dots> = mset (map ?pair (concat (map (\<lambda>task.
      reported_pairs E sentinel start_date end_date (fields_of (fst task))) tasks)))"
    by (simp only: map_concat map_map comp_def)
  finally show ?thesis by (simp only: split)
qed

lemma process_chunk_needs_optical:
  assumes "process_chunk E s_filtered (date # chunk) polygon c name sentinel = Inr rs"
  shows "sentinel = 2"
  using assms
  by (auto simp: process_chunk_def chunk_step_def radar_acquisition_fails
      split: if_splits sum.splits)

lemma parallelize_features_read_optical:
  assumes "parallelize_features_read E s_filtered dates polygon c name sentinel occupied = Inr rows"
  shows "sentinel = 2"
proof -
  let ?pc = "\<lambda>chunk. process_chunk E s_filtered chunk polygon c name sentinel"
  from assms obtain chunks where
    chunks: "date_chunks dates (num_chunks E occupied) = Inr chunks"
    and rows: "gather (as_completed (inner_order E polygon) (map ?pc chunks)) = Inr rows"
    unfolding parallelize_features_read_def bind_err_eq_Inr by auto
  from parallelize_features_read_budget(1,2) [OF assms] have "dates \<noteq> []" by auto
  with date_chunks_concat [OF chunks parallelize_features_read_budget(1) [OF assms]]
  have "concat chunks \<noteq> []" by simp
  then obtain chunk where in_chunks: "chunk \<in> set chunks" and ne: "chunk \<noteq> []" by auto
  from ne obtain date rest where chunk: "chunk = date # rest" by (cases chunk) auto
  from gather_as_completed_Inr [OF rows] in_chunks obtain rs where "?pc chunk = Inr rs" by auto
  then show ?thesis unfolding chunk by (rule process_chunk_needs_optical)
qed

lemma get_features_needs_dates:
  assumes "get_features E fields_df start_date end_date sentinel fields_threads = Inr tbl"
    and "(name, polygon) \<in> set (fields_of fields_df)"
  shows "sentinel = 2 \<and> 0 < max_workers E - fields_threads \<and>
         (\<exists>s_dates. aggregate_dates E (filter_collection E sentinel polygon start_date end_date)
              = Inr s_dates
            \<and> max_workers E - fields_threads \<le> int (length (remdups s_dates)))"
proof -
  let ?run = "\<lambda>(field, occupied). process_field E field start_date end_date sentinel occupied"
  from assms(1) obtain tasks df_list where
    tasks: "field_tasks fields_df fields_threads = Inr tasks"
    and g: "gather (as_completed (outer_order E) (map ?run tasks)) = Inr df_list"
    unfolding get_features_def bind_err_eq_Inr by auto
  from gather_as_completed_Inr [OF g]
  have ok: "\<forall>r \<in> set (map ?run tasks). \<exists>xs. r = Inr xs" by simp
  have "\<exists>c. (Series c name polygon, fields_threads) \<in> set tasks"
  proof (cases fields_df)
    case (Series c n p)
    with tasks assms(2) show ?thesis by (auto simp: field_tasks_def)
  next
    case (DataFrame c rows)
    show ?thesis
    proof (cases "length rows = 2")
      case True
      with tasks DataFrame ok show ?thesis by (auto simp: field_tasks_def)
    next
      case False
      with tasks DataFrame assms(2) show ?thesis by (force simp: field_tasks_def)
    qed
  qed
  then obtain c where "(Series c name polygon, fields_threads) \<in> set tasks" ..
  with ok obtain rows where
    run: "process_field E (Series c name polygon) start_date end_date sentinel fields_threads
            = Inr rows" by force
  then obtain s_dates where
    d: "aggregate_dates E (filter_collection E sentinel polygon start_date end_date) = Inr s_dates"
    and r: "parallelize_features_read E (filter_collection E sentinel polygon start_date end_date)
              (sort (remdups s_dates)) polygon c name sentinel fields_threads = Inr rows"
    by (auto simp: bind_err_eq_Inr split: if_splits)
  from parallelize_features_read_optical [OF r] parallelize_features_read_budget(1,2) [OF r] d
  show ?thesis by (simp add: num_chunks_def)
qed

text \<open>
  Conversely \<open>get_features\<close> returns a table when it is given a row, or a non-empty table
  that does not have exactly two rows, with the optical satellite, a positive number of
  field workers below the budget, and when the platform answers for every field with at
  least as many distinct dates as inner workers and, for every date, with all twelve band
  means and every index.
\<close>

lemma traverse_returns:
  assumes "\<forall>x \<in> set xs. \<exists>y. f x = Inr y"
  shows "\<exists>ys. traverse f xs = Inr ys"
  using assms by (induction xs) auto

lemma gather_returns:
  assumes "\<forall>r \<in> set rs. \<exists>xs. r = Inr xs"
  shows "\<exists>ys. gather rs = Inr ys"
  using assms
proof (induction rs)
  case (Cons r rs)
  then obtain xs ys where "r = Inr xs" "gather rs = Inr ys" by auto
  then show ?case by simp
qed simp

lemma optical_acquisition_returns:
  assumes "get_all_bands E s_filtered date polygon = Inr bands"
    and "\<forall>col \<in> set optical_index_columns. \<exists>v. optical_index E col bands = Inr v"
    and "\<forall>b \<in> set optical_band_columns. \<exists>v. map_of bands b = Some v"
  shows "\<exists>r. optical_acquisition E s_filtered date polygon c name = Inr r"
proof -
  from traverse_returns [OF assms(2)] obtain indices where
    i: "traverse (\<lambda>col. optical_index E col bands) optical_index_columns = Inr indices" ..
  have "\<forall>b \<in> set optical_band_columns. \<exists>v. dict_get bands b = Inr v"
    using assms(3) by (auto simp: dict_get_def)
  from traverse_returns [OF this] obtain means where
    m: "traverse (dict_get bands) optical_band_columns = Inr means" ..
  show ?thesis by (simp add: optical_acquisition_def assms(1) i m)
qed

lemma parallelize_features_read_returns:
  assumes "0 < num_chunks E occupied" and "num_chunks E occupied \<le> int (length dates)"
    and "\<forall>date \<in> set dates. \<exists>r. optical_acquisition E s_filtered date polygon c name = Inr r"
  shows "\<exists>rows. parallelize_features_read E s_filtered dates polygon c name 2 occupied = Inr rows"
proof -
  let ?pc = "\<lambda>chunk. process_chunk E s_filtered chunk polygon c name 2"
  from assms(1) have k1: "1 \<le> num_chunks E occupied" by simp
  define n where "n = length dates div nat (num_chunks E occupied)"
  define chunks where
    "chunks = map (\<lambda>j. take n (drop (j * n) dates)) [0 ..< (length dates + n - 1) div n]"
  have run: "date_chunks dates (num_chunks E occupied) = Inr chunks"
    using date_chunks_fixed(1) [OF k1 assms(2)] by (simp add: chunks_def n_def)
  have sub: "set chunk \<subseteq> set dates" if "chunk \<in> set chunks" for chunk
    using that set_take_subset set_drop_subset by (fastforce simp: chunks_def)
  have "\<exists>rs. ?pc chunk = Inr rs" if "chunk \<in> set chunks" for chunk
    unfolding process_chunk_def
    using assms(3) sub [OF that] by (intro traverse_returns) (auto simp: chunk_step_def)
  then have "\<forall>r \<in> set (as_completed (inner_order E polygon) (map ?pc chunks)). \<exists>xs. r = Inr xs"
    by (auto simp: set_as_completed)
  from gather_returns [OF this] assms(1) run show ?thesis
    by (simp add: parallelize_features_read_def thread_pool_executor_def)
qed

lemma process_field_returns:
  assumes "fields_threads < max_workers E"
    and "aggregate_dates E (filter_collection E 2 polygon start_date end_date) = Inr s_dates"
    and "max_workers E - fields_threads \<le> int (length (remdups s_dates))"
    and "\<forall>date \<in> set s_dates. \<exists>bands.
           get_all_bands E (filter_collection E 2 polygon start_date end_date) date polygon
             = Inr bands
           \<and> (\<forall>col \<in> set optical_index_columns. \<exists>v. optical_index E col bands = Inr v)
           \<and> (\<forall>b \<in> set optical_band_columns. \<exists>v. map_of bands b = Some v)"
  shows "\<exists>rows. process_field E (Series c name polygon) start_date end_date 2 fields_threads
           = Inr rows \<and> rows \<noteq> []"
proof -
  let ?s = "filter_collection E 2 polygon start_date end_date"
  let ?dates = "sort (remdups s_dates)"
  have k: "0 < num_chunks E fields_threads" "num_chunks E fields_threads \<le> int (length ?dates)"
    using assms(1,3) by (simp_all add: num_chunks_def)
  have "\<forall>date \<in> set ?dates. \<exists>r. optical_acquisition E ?s date polygon c name = Inr r"
    using assms(4) optical_acquisition_returns [of E ?s _ polygon _ c name] by fastforce
  from parallelize_features_read_returns [OF k this] obtain rows where
    rows: "parallelize_features_read E ?s ?dates polygon c name 2 fields_threads = Inr rows" ..
  from k have "0 < length ?dates" by linarith
  with parallelize_features_read_budget(3) [OF rows] have "0 < length rows" by simp
  then have "rows \<noteq> []" by (metis length_greater_0_conv)
  with rows assms(2) show ?thesis by simp
qed

lemma get_features_of_gathered:
  assumes "0 < fields_threads"
    and "field_tasks fields_df fields_threads = Inr tasks"
    and "gather (as_completed (outer_order E)
           (map (\<lambda>(field, occupied).
              process_field E field start_date end_date sentinel occupied) tasks)) = Inr df_list"
    and "df_list \<noteq> []"
  shows "\<exists>tbl. get_features E fields_df start_date end_date sentinel fields_threads = Inr tbl"
proof -
  from row_shape_two_columns [of "label_of fields_df"] obtain c0 c1 cols where
    cols: "map fst (row_shape (label_of fields_df)) = c0 # c1 # cols" by (elim exE)
  have uniform: "\<forall>r \<in> set df_list. map fst r = c0 # c1 # cols"
    using gathered_rows [OF assms(2,3)] chunk_step_columns cols by metis
  have dist: "distinct (c0 # c1 # cols)"
    using distinct_row_shape [of "label_of fields_df"] cols by simp
  from sort_values_uniform(1) [OF assms(4) uniform dist] assms(1,2,3) show ?thesis
    by (simp add: get_features_def thread_pool_executor_def)
qed

lemma get_features_returns:
  assumes "0 < fields_threads" and "fields_threads < max_workers E"
    and "fields_df = Series c name polygon \<or>
         fields_df = DataFrame c rows \<and> rows \<noteq> [] \<and> length rows \<noteq> 2"
    and "\<forall>(n, p) \<in> set (fields_of fields_df). \<exists>s_dates.
           aggregate_dates E (filter_collection E 2 p start_date end_date) = Inr s_dates
           \<and> max_workers E - fields_threads \<le> int (length (remdups s_dates))
           \<and> (\<forall>date \<in> set s_dates. \<exists>bands.
                 get_all_bands E (filter_collection E 2 p start_date end_date) date p = Inr bands
                 \<and> (\<forall>col \<in> set optical_index_columns. \<exists>v. optical_index E col bands = Inr v)
                 \<and> (\<forall>b \<in> set optical_band_columns. \<exists>v. map_of bands b = Some v))"
  shows "\<exists>tbl. get_features E fields_df start_date end_date 2 fields_threads = Inr tbl"
proof -
  let ?run = "\<lambda>(field, occupied). process_field E field start_date end_date 2 occupied"
  define tasks where
    "tasks = map (\<lambda>(n, p). (Series c n p, fields_threads)) (fields_of fields_df)"
  have ft: "field_tasks fields_df fields_threads = Inr tasks"
    using assms(3) by (auto simp: field_tasks_def tasks_def comp_def case_prod_unfold)
  have ne: "tasks \<noteq> []" using assms(3) by (auto simp: tasks_def)
  have each: "\<exists>xs. ?run task = Inr xs \<and> xs \<noteq> []" if "task \<in> set tasks" for task
  proof -
    from that obtain n p where task: "task = (Series c n p, fields_threads)"
      and np: "(n, p) \<in> set (fields_of fields_df)" by (auto simp: tasks_def)
    from assms(4) np obtain s_dates where
      "aggregate_dates E (filter_collection E 2 p start_date end_date) = Inr s_dates"
      "max_workers E - fields_threads \<le> int (length (remdups s_dates))"
      "\<forall>date \<in> set s_dates. \<exists>bands.
         get_all_bands E (filter_collection E 2 p start_date end_date) date p = Inr bands
         \<and> (\<forall>col \<in> set optical_index_columns. \<exists>v. optical_index E col bands = Inr v)
         \<and> (\<forall>b \<in> set optical_band_columns. \<exists>v. map_of bands b = Some v)"
      by blast
    from process_field_returns [OF assms(2) this] show ?thesis by (simp add: task)
  qed
  then have "\<forall>r \<in> set (as_completed (outer_order E) (map ?run tasks)). \<exists>xs. r = Inr xs"
    by (auto simp: set_as_completed)
  from gather_returns [OF this] obtain df_list where
    g: "gather (as_completed (outer_order E) (map ?run tasks)) = Inr df_list" ..
  from ne obtain task where task: "task \<in> set tasks" by (cases tasks) auto
  from each [OF task] obtain xs where xs: "?run task = Inr xs" "xs \<noteq> []" by blast
  from gather_as_completed_Inr [OF g]
  have "mset df_list = mset (concat (map projr (map ?run tasks)))" by simp
  moreover have "concat (map projr (map ?run tasks)) \<noteq> []"
    using task xs by (force simp: concat_eq_Nil_conv)
  ultimately have "df_list \<noteq> []" by auto
  from get_features_of_gathered [OF assms(1) ft g this] show ?thesis .
qed

subsection \<open>A sentinel other than 1 and 2\<close>

lemma process_chunk_unbound:
  assumes "sentinel \<noteq> 1" and "sentinel \<noteq> 2"
  shows "process_chunk E s_filtered (date # chunk) polygon c name sentinel = Inl UnboundLocalError"
  using assms by (simp add: process_chunk_def chunk_step_def)

lemma process_field_unbound:
  assumes "sentinel \<noteq> 1" and "sentinel \<noteq> 2"
  shows "process_field E (Series c name polygon) start_date end_date sentinel occupied =
           Inl UnboundLocalError"
  using assms by simp

lemma get_features_row_unbound:
  assumes "sentinel \<noteq> 1" and "sentinel \<noteq> 2" and "0 < fields_threads"
  shows "get_features E (Series c name polygon) start_date end_date sentinel fields_threads =
           Inl UnboundLocalError"
  using assms
  by (simp add: get_features_def thread_pool_executor_def field_tasks_def as_completed_single)

lemma get_features_table_unbound:
  assumes "sentinel \<noteq> 1" and "sentinel \<noteq> 2" and "0 < fields_threads"
    and "rows \<noteq> []" and "length rows \<noteq> 2"
  shows "get_features E (DataFrame c rows) start_date end_date sentinel fields_threads =
           Inl UnboundLocalError"
proof -
  define rs where "rs = map (\<lambda>(field, occupied).
      process_field E field start_date end_date sentinel occupied)
        (map (\<lambda>field. (field, fields_threads)) (map (\<lambda>(n, p). Series c n p) rows))"
  have "\<forall>r \<in> set rs. r = Inl UnboundLocalError"
    unfolding rs_def using process_field_unbound [OF assms(1,2)] by auto
  moreover have "rs \<noteq> []" using assms(4) by (simp add: rs_def)
  ultimately have "gather (as_completed (outer_order E) rs) = Inl UnboundLocalError"
    by (rule gather_as_completed_all_Inl [rotated])
  then show ?thesis
    using assms(3,5) by (simp add: get_features_def thread_pool_executor_def field_tasks_def rs_def)
qed

text \<open>
  Claim C10: with a sentinel other than 1 and 2, \<open>process_field\<close> on a row reads the
  never-assigned \<^verbatim>\<open>s_filtered\<close> and \<open>process_chunk\<close> on a non-empty chunk reads the
  never-assigned \<^verbatim>\<open>df_acquisition\<close>; both raise \<^verbatim>\<open>UnboundLocalError\<close>. \<open>get_features\<close>
  reaches the branch: called with a positive number of field workers on a single row, or
  on a non-empty table that does not have exactly two rows, it raises the same exception.
\<close>

theorem unsupported_sentinel_unbound:
  assumes "sentinel \<noteq> 1" and "sentinel \<noteq> 2"
  shows "process_field E (Series c name polygon) start_date end_date sentinel occupied =
           Inl UnboundLocalError
       \<and> process_chunk E s_filtered (date # chunk) polygon c name sentinel = Inl UnboundLocalError
       \<and> (0 < fields_threads \<longrightarrow>
            get_features E (Series c name polygon) start_date end_date sentinel fields_threads =
              Inl UnboundLocalError)
       \<and> (0 < fields_threads \<longrightarrow> rows \<noteq> [] \<longrightarrow> length rows \<noteq> 2 \<longrightarrow>
            get_features E (DataFrame c rows) start_date end_date sentinel fields_threads =
              Inl UnboundLocalError)"
proof (intro conjI impI)
  show "process_field E (Series c name polygon) start_date end_date sentinel occupied =
          Inl UnboundLocalError"
    by (rule process_field_unbound [OF assms])
  show "process_chunk E s_filtered (date # chunk) polygon c name sentinel = Inl UnboundLocalError"
    by (rule process_chunk_unbound [OF assms])
  show "get_features E (Series c name polygon) start_date end_date sentinel fields_threads =
          Inl UnboundLocalError" if "0 < fields_threads"
    by (rule get_features_row_unbound [OF assms that])
  show "get_features E (DataFrame c rows) start_date end_date sentinel fields_threads =
          Inl UnboundLocalError"
    if "0 < fields_threads" and "rows \<noteq> []" and "length rows \<noteq> 2"
    by (rule get_features_table_unbound [OF assms that])
qed

theorem unsupported_sentinel_unbound_witness:
  "(3::int) \<noteq> 1 \<and> (3::int) \<noteq> 2
   \<and> process_field (sample_env 8 (\<lambda>p. [1, 2, 3, 4]) []) (Series ''name'' ''a'' 0) 0 10 3 4 =
       (Inl UnboundLocalError :: error + (string, int) acquisition list)
   \<and> process_chunk (sample_env 8 (\<lambda>p. [1, 2, 3, 4]) []) 0 [1, 2] 0 ''name'' ''a'' 3 =
       (Inl UnboundLocalError :: error + (string, int) acquisition list)
   \<and> (0::int) < 4
   \<and> get_features (sample_env 8 (\<lambda>p. [1, 2, 3, 4]) []) (Series ''name'' ''a'' 0) 0 10 3 4 =
       Inl UnboundLocalError
   \<and> [(''a'', 0::nat), (''b'', 1), (''c'', 2)] \<noteq> []
   \<and> length [(''a'', 0::nat), (''b'', 1), (''c'', 2)] \<noteq> 2
   \<and> get_features (sample_env 8 (\<lambda>p. [1, 2, 3, 4]) [])
       (DataFrame ''name'' [(''a'', 0), (''b'', 1), (''c'', 2)]) 0 10 3 4 = Inl UnboundLocalError"
proof -
  have s: "(3::int) \<noteq> 1" "(3::int) \<noteq> 2" by simp_all
  from unsupported_sentinel_unbound [OF s, of "sample_env 8 (\<lambda>p. [1, 2, 3, 4]) []" "''name''"
      "''a''" 0 0 10 4 0 1 "[2]" 4 "[(''a'', 0::nat), (''b'', 1), (''c'', 2)]"]
  show ?thesis by simp
qed

end
